theory Spec2Isabelle
  imports Complex_Main "HOL-Library.Multiset"
begin

text \<open>
  A shallow embedding of the training step (src/partitioning/xmap_train_functions.py,
  benchmark_pjit_dp.py), of the key/value cache of the attention layer
  (src/models/layers.py) and of the decoding engine (torch_compatability/generation.py).

  Floating-point numbers are modelled by the real numbers: sums, quotients, \<open>exp\<close> and
  \<open>ln\<close> are exact, and there is neither rounding nor NaN. Where the Python code divides
  by zero (an accumulation count, a temperature or a repetition penalty of zero) the floats
  become infinite or NaN and the embedding says nothing faithful: every statement below
  about a computed value is to be read for a count, a temperature and a penalty other
  than zero.
\<close>

section \<open>Python values shared by the embeddings\<close>

text \<open>
  Exceptions of the Python sources are values: every function that can raise returns
  \<open>error + 'a\<close>, with \<open>Inl\<close> the exception.
\<close>

datatype error = TypeError | ValueError | IndexError | RuntimeError

text \<open>
  The slice \<open>xs[i:]\<close> of a Python sequence (and of one axis of an array): a negative
  start counts from the end and is clipped at the front, a start past the end gives the
  empty sequence. \<open>xs[-n:]\<close> is \<open>py_slice_from (- n) xs\<close>; for \<open>n = 0\<close> the start is
  \<open>-0 = 0\<close> and the slice is the whole sequence.
\<close>

definition py_slice_from :: "int \<Rightarrow> 'a list \<Rightarrow> 'a list" where
  "py_slice_from i xs =
     (if i < 0 then drop (nat (int (length xs) + i)) xs else drop (nat i) xs)"


section \<open>The key/value cache of \<open>CausalAttention\<close> (src/models/layers.py)\<close>

text \<open>
  The keys and values of one call have shape \<open>(B, nh, T, h_dim)\<close>; the cache is
  concatenated and sliced along axis \<open>-2\<close> only. A tensor is modelled as the list of its
  \<open>T\<close> slices along that axis (each slice of type \<open>'a\<close> holds the other three axes), so
  \<open>jnp.concatenate (.., axis=-2)\<close> is \<open>@\<close> and \<open>[:, :, -block_size:, :]\<close> is
  \<open>py_slice_from (- block_size)\<close>. \<open>jnp.stack((key, value))\<close> is the pair.

  \<open>causal_attention_present\<close> is the \<open>present\<close> that \<open>CausalAttention.__call__\<close>
  returns (lines 144 to 156); \<open>key\<close> and \<open>val\<close> are the projections of the current
  input, \<open>block_size\<close> is the module's attribute (a Python int).
\<close>

definition causal_attention_present ::
  "int \<Rightarrow> bool \<Rightarrow> ('a list \<times> 'a list) option \<Rightarrow> 'a list \<Rightarrow> 'a list
     \<Rightarrow> ('a list \<times> 'a list) option" where
  "causal_attention_present block_size use_cache layer_past key val =
     (if use_cache then
        (case layer_past of
           None \<Rightarrow> Some (key, val)
         | Some (past_keys, past_values) \<Rightarrow>
             Some (py_slice_from (- block_size) (past_keys @ key),
                   py_slice_from (- block_size) (past_values @ val)))
      else None)"

text \<open>
  A decoding run calls the layer once per step with \<open>use_cache = True\<close>, feeding each
  call the \<open>present\<close> of the one before (the first call has no past).
  \<open>decode_cache\<close> threads the cache through the calls of such a run; its second
  argument lists the (keys, values) projected at each step.
\<close>

fun decode_cache ::
  "int \<Rightarrow> ('a list \<times> 'a list) list \<Rightarrow> ('a list \<times> 'a list) option
     \<Rightarrow> ('a list \<times> 'a list) option" where
  "decode_cache block_size [] layer_past = layer_past"
| "decode_cache block_size ((key, val) # rest) layer_past =
     decode_cache block_size rest
       (causal_attention_present block_size True layer_past key val)"

text \<open>The sequence lengths of a cache stay within a bound.\<close>

definition cache_within :: "nat \<Rightarrow> ('a list \<times> 'a list) option \<Rightarrow> bool" where
  "cache_within n c =
     (case c of None \<Rightarrow> True | Some (ks, vs) \<Rightarrow> length ks \<le> n \<and> length vs \<le> n)"


section \<open>Pytrees and tensors of the training step\<close>

text \<open>
  A pytree of JAX: a leaf, or a dictionary from names to pytrees (an association list, in
  the order in which JAX flattens it).
\<close>

datatype 'a pytree = Leaf 'a | Node "(string \<times> 'a pytree) list"

text \<open>\<open>jax.tree_util.tree_map f tree\<close>, for a function that cannot raise.\<close>

definition tree_map :: "('a \<Rightarrow> 'b) \<Rightarrow> 'a pytree \<Rightarrow> 'b pytree" where
  "tree_map f t = map_pytree f t"

text \<open>
  \<open>jax.tree_util.tree_map f tree\<close>, for a function that can raise: the first exception,
  in the order of the leaves, is the result.
\<close>

fun tree_map_err :: "('a \<Rightarrow> error + 'b) \<Rightarrow> 'a pytree \<Rightarrow> error + 'b pytree"
and tree_map_err_items ::
  "('a \<Rightarrow> error + 'b) \<Rightarrow> (string \<times> 'a pytree) list \<Rightarrow> error + (string \<times> 'b pytree) list" where
  "tree_map_err f (Leaf a) = (case f a of Inl e \<Rightarrow> Inl e | Inr b \<Rightarrow> Inr (Leaf b))"
| "tree_map_err f (Node xs) =
     (case tree_map_err_items f xs of Inl e \<Rightarrow> Inl e | Inr zs \<Rightarrow> Inr (Node zs))"
| "tree_map_err_items f [] = Inr []"
| "tree_map_err_items f ((k, s) # xs) =
     (case tree_map_err f s of
        Inl e \<Rightarrow> Inl e
      | Inr u \<Rightarrow> (case tree_map_err_items f xs of Inl e \<Rightarrow> Inl e | Inr zs \<Rightarrow> Inr ((k, u) # zs)))"

text \<open>
  \<open>jax.tree_util.tree_map f tree other\<close> over two trees: the trees must have the same
  structure (the same names in the same places), else JAX raises \<open>ValueError\<close>.
\<close>

fun tree_map2 :: "('a \<Rightarrow> 'b \<Rightarrow> error + 'c) \<Rightarrow> 'a pytree \<Rightarrow> 'b pytree \<Rightarrow> error + 'c pytree"
and tree_map2_items ::
  "('a \<Rightarrow> 'b \<Rightarrow> error + 'c) \<Rightarrow> (string \<times> 'a pytree) list \<Rightarrow> (string \<times> 'b pytree) list
     \<Rightarrow> error + (string \<times> 'c pytree) list" where
  "tree_map2 f (Leaf a) (Leaf b) = (case f a b of Inl e \<Rightarrow> Inl e | Inr c \<Rightarrow> Inr (Leaf c))"
| "tree_map2 f (Node xs) (Node ys) =
     (case tree_map2_items f xs ys of Inl e \<Rightarrow> Inl e | Inr zs \<Rightarrow> Inr (Node zs))"
| "tree_map2 f (Leaf a) (Node ys) = Inl ValueError"
| "tree_map2 f (Node xs) (Leaf b) = Inl ValueError"
| "tree_map2_items f [] [] = Inr []"
| "tree_map2_items f ((k, s) # xs) ((k', t) # ys) =
     (if k = k' then
        (case tree_map2 f s t of
           Inl e \<Rightarrow> Inl e
         | Inr u \<Rightarrow> (case tree_map2_items f xs ys of Inl e \<Rightarrow> Inl e | Inr zs \<Rightarrow> Inr ((k, u) # zs)))
      else Inl ValueError)"
| "tree_map2_items f [] (y # ys) = Inl ValueError"
| "tree_map2_items f (x # xs) [] = Inl ValueError"

text \<open>\<open>jax.tree_util.tree_leaves\<close>: the leaves from left to right.\<close>

fun tree_leaves :: "'a pytree \<Rightarrow> 'a list"
and items_leaves :: "(string \<times> 'a pytree) list \<Rightarrow> 'a list" where
  "tree_leaves (Leaf a) = [a]"
| "tree_leaves (Node xs) = items_leaves xs"
| "items_leaves [] = []"
| "items_leaves ((k, t) # xs) = tree_leaves t @ items_leaves xs"

text \<open>
  A tensor of parameters or gradients is the list of its elements (in row-major order);
  its shape is represented by the number of elements. The shape of a tree is its structure
  with the size of every leaf.
\<close>

definition tree_shape :: "'a list pytree \<Rightarrow> nat pytree" where
  "tree_shape t = map_pytree length t"

definition zeros_like :: "real list \<Rightarrow> real list" where
  "zeros_like t = map (\<lambda>_. 0) t"

text \<open>
  \<open>jnp.add\<close> on two tensors of the same shape adds elementwise. Tensors of different sizes
  are an error here (JAX raises \<open>TypeError\<close> unless the shapes broadcast; broadcasting is
  not modelled: the gradients of \<open>jax.value_and_grad\<close> have the shapes of the parameters).
\<close>

definition jnp_add :: "real list \<Rightarrow> real list \<Rightarrow> error + real list" where
  "jnp_add a b = (if length a = length b then Inr (map2 (+) a b) else Inl TypeError)"

text \<open>
  \<open>jax.lax.fori_loop lower upper body init_val\<close>: the body runs for the indices
  \<open>lower, ..., upper - 1\<close> in order, threading the value; an exception of the body ends
  the loop.
\<close>

fun fori_list :: "nat list \<Rightarrow> (nat \<Rightarrow> 's \<Rightarrow> error + 's) \<Rightarrow> 's \<Rightarrow> error + 's" where
  "fori_list [] body v = Inr v"
| "fori_list (i # is) body v =
     (case body i v of Inl e \<Rightarrow> Inl e | Inr v' \<Rightarrow> fori_list is body v')"

definition fori_loop :: "nat \<Rightarrow> nat \<Rightarrow> (nat \<Rightarrow> 's \<Rightarrow> error + 's) \<Rightarrow> 's \<Rightarrow> error + 's" where
  "fori_loop lower upper body init_val = fori_list [lower..<upper] body init_val"

text \<open>
  A leaf of the batch is a tensor with at least two axes; axis 1 is the accumulation axis.
  It is modelled by the size of axis 1 and by its rows along axis 0, each row listing the
  entries along axis 1 (an entry of type \<open>'a\<close> holds the remaining axes). In a well-formed
  tensor every row has the length of axis 1.
\<close>

datatype 'a batch_tensor = BatchTensor (axis1_size: nat) (rows: "'a list list")

definition wf_batch_tensor :: "'a batch_tensor \<Rightarrow> bool" where
  "wf_batch_tensor x = (\<forall>r \<in> set (rows x). length r = axis1_size x)"

text \<open>
  \<open>jax.lax.dynamic_index_in_dim x index axis=1 keepdims=False\<close>, as JAX documents
  \<open>dynamic_slice\<close>, on which it is built: a negative index is offset by the size of the
  axis, and the start index is then clamped so that the slice of size one lies within the
  axis. The only failure is an axis of size zero, which has no slice of size one.
\<close>

definition clamp_index :: "nat \<Rightarrow> int \<Rightarrow> nat" where
  "clamp_index d i =
     (let j = (if i < 0 then i + int d else i) in nat (max 0 (min j (int d - 1))))"

definition dynamic_index_in_dim :: "'a batch_tensor \<Rightarrow> int \<Rightarrow> error + 'a list" where
  "dynamic_index_in_dim x index =
     (if axis1_size x = 0 then Inl TypeError
      else Inr (map (\<lambda>row. row ! clamp_index (axis1_size x) index) (rows x)))"


section \<open>The training step (xmap_train_functions.py, benchmark_pjit_dp.py)\<close>

text \<open>\<open>get_minibatch\<close>, the same local function in both files.\<close>

definition get_minibatch :: "'a batch_tensor pytree \<Rightarrow> int \<Rightarrow> error + 'a list pytree" where
  "get_minibatch batch grad_idx = tree_map_err (\<lambda>x. dynamic_index_in_dim x grad_idx) batch"

text \<open>
  \<open>loss_and_grad\<close> of xmap_train_functions.py. \<open>grad_fn\<close> is
  \<open>jax.value_and_grad(loss_fn)\<close>, which applies the model and is kept abstract.
  \<open>fori_loop\<close> always passes an index, so the branch \<open>grad_idx is None\<close> is not taken.
\<close>

definition loss_and_grad ::
  "(real list pytree \<Rightarrow> 'a list pytree \<Rightarrow> real \<times> real list pytree) \<Rightarrow> real list pytree
     \<Rightarrow> 'a batch_tensor pytree \<Rightarrow> nat \<Rightarrow> error + real \<times> real list pytree" where
  "loss_and_grad grad_fn params batch grad_idx =
     (case get_minibatch batch (int grad_idx) of
        Inl e \<Rightarrow> Inl e
      | Inr minibatch \<Rightarrow> Inr (grad_fn params minibatch))"

text \<open>
  \<open>with_sharding_constraint x spec\<close> returns \<open>x\<close> itself, and raises when the layout of
  \<open>x\<close> does not admit the partition spec; \<open>conforms\<close> says when it does.
\<close>

definition with_sharding_constraint :: "('t \<Rightarrow> 'p \<Rightarrow> bool) \<Rightarrow> 't \<Rightarrow> 'p \<Rightarrow> error + 't" where
  "with_sharding_constraint conforms x spec = (if conforms x spec then Inr x else Inl ValueError)"

text \<open>
  \<open>loss_and_grad\<close> of benchmark_pjit_dp.py, which also constrains the minibatch to
  \<open>PartitionSpec(None, "dp")\<close>.
\<close>

definition pjit_loss_and_grad ::
  "('a list pytree \<Rightarrow> 'p \<Rightarrow> bool) \<Rightarrow> 'p
     \<Rightarrow> (real list pytree \<Rightarrow> 'a list pytree \<Rightarrow> real \<times> real list pytree) \<Rightarrow> real list pytree
     \<Rightarrow> 'a batch_tensor pytree \<Rightarrow> nat \<Rightarrow> error + real \<times> real list pytree" where
  "pjit_loss_and_grad conforms dp_spec grad_fn params batch grad_idx =
     (case get_minibatch batch (int grad_idx) of
        Inl e \<Rightarrow> Inl e
      | Inr minibatch \<Rightarrow>
          (case with_sharding_constraint conforms minibatch dp_spec of
             Inl e \<Rightarrow> Inl e
           | Inr minibatch' \<Rightarrow> Inr (grad_fn params minibatch')))"

text \<open>
  \<open>cumul_minibatch_step\<close>: \<open>tree_map jnp.add\<close> over the pairs (loss, gradients) adds the
  two losses and the two gradient trees.
\<close>

definition cumul_minibatch_step ::
  "(nat \<Rightarrow> error + real \<times> real list pytree) \<Rightarrow> nat \<Rightarrow> real \<times> real list pytree
     \<Rightarrow> error + real \<times> real list pytree" where
  "cumul_minibatch_step lag grad_idx cumul_loss_grad =
     (case cumul_loss_grad of (cumul_loss, cumul_grads) \<Rightarrow>
        (case lag grad_idx of
           Inl e \<Rightarrow> Inl e
         | Inr (loss, grads) \<Rightarrow>
             (case tree_map2 jnp_add cumul_grads grads of
                Inl e \<Rightarrow> Inl e
              | Inr cumul_grads' \<Rightarrow> Inr (cumul_loss + loss, cumul_grads'))))"

text \<open>
  The accumulation of \<open>train_step\<close>, the same text in both files
  (xmap_train_functions.py lines 47 to 66, benchmark_pjit_dp.py lines 111 to 137):
  \<open>init_minibatch\<close>, the \<open>fori_loop\<close> and the division of both sums by the count.
  \<open>lag\<close> is the file's \<open>loss_and_grad\<close>.
\<close>

definition accumulate ::
  "(nat \<Rightarrow> error + real \<times> real list pytree) \<Rightarrow> real list pytree \<Rightarrow> nat
     \<Rightarrow> error + real \<times> real list pytree" where
  "accumulate lag params accum_steps =
     (let init_minibatch = (0, tree_map zeros_like params) in
      case fori_loop 0 accum_steps (cumul_minibatch_step lag) init_minibatch of
        Inl e \<Rightarrow> Inl e
      | Inr (loss, grads) \<Rightarrow>
          Inr (loss / real accum_steps, tree_map (map (\<lambda>v. v / real accum_steps)) grads))"

text \<open>
  \<open>train_step\<close> of xmap_train_functions.py: it returns the gradients and the metrics.
  \<open>jax.lax.pmean\<close> over the axis \<open>batch\<close> is a collective of the mesh, kept abstract
  (\<open>pmean_loss\<close> on the loss, \<open>pmean_grads\<close> on the gradients).
\<close>

definition train_step ::
  "(real list pytree \<Rightarrow> 'a list pytree \<Rightarrow> real \<times> real list pytree)
     \<Rightarrow> (real \<Rightarrow> real) \<Rightarrow> (real list pytree \<Rightarrow> real list pytree)
     \<Rightarrow> real list pytree \<Rightarrow> 'a batch_tensor pytree \<Rightarrow> nat
     \<Rightarrow> error + real list pytree \<times> (string \<times> real) list" where
  "train_step grad_fn pmean_loss pmean_grads params batch accum_steps =
     (case accumulate (loss_and_grad grad_fn params batch) params accum_steps of
        Inl e \<Rightarrow> Inl e
      | Inr (loss, grads) \<Rightarrow>
          (let loss' = pmean_loss loss; grads' = pmean_grads grads in
           Inr (grads', [(''Train LM Loss'', loss'), (''Train LM PPL'', exp loss')])))"

text \<open>
  \<open>train_step\<close> of benchmark_pjit_dp.py: it returns the new state and the metrics. The
  train state is abstract: \<open>state_params\<close> reads its parameters, \<open>apply_gradients\<close>
  is its update.
\<close>

definition pjit_train_step ::
  "('a list pytree \<Rightarrow> 'p \<Rightarrow> bool) \<Rightarrow> 'p
     \<Rightarrow> (real list pytree \<Rightarrow> 'a list pytree \<Rightarrow> real \<times> real list pytree)
     \<Rightarrow> ('s \<Rightarrow> real list pytree) \<Rightarrow> ('s \<Rightarrow> real list pytree \<Rightarrow> 's)
     \<Rightarrow> 's \<Rightarrow> 'a batch_tensor pytree \<Rightarrow> nat \<Rightarrow> error + 's \<times> (string \<times> real) list" where
  "pjit_train_step conforms dp_spec grad_fn state_params apply_gradients state batch
       grad_accum_steps =
     (case accumulate (pjit_loss_and_grad conforms dp_spec grad_fn (state_params state) batch)
             (state_params state) grad_accum_steps of
        Inl e \<Rightarrow> Inl e
      | Inr (loss, grads) \<Rightarrow>
          (let new_state = apply_gradients state grads in
           Inr (new_state, [(''Train LM Loss'', loss), (''Train LM PPL'', exp loss)])))"

text \<open>
  \<open>update_opt_state\<close> (xmap_train_functions.py lines 90 to 108). Line 103 binds
  \<open>grads\<close> to the constrained parameters, line 104 constrains that value again; the
  argument \<open>grads\<close> is not read. \<open>optimizer_update\<close> is \<open>optimizer.update\<close>;
  \<open>optax.apply_updates\<close> adds the updates to the parameters leaf by leaf.
\<close>

definition update_opt_state ::
  "(real list pytree \<Rightarrow> 'p \<Rightarrow> bool)
     \<Rightarrow> (real list pytree \<Rightarrow> 's \<Rightarrow> real list pytree \<Rightarrow> real list pytree \<times> 's)
     \<Rightarrow> real list pytree \<Rightarrow> 's \<Rightarrow> real list pytree \<Rightarrow> 'p
     \<Rightarrow> error + real list pytree \<times> 's" where
  "update_opt_state conforms optimizer_update grads optimizer_state params grad_spec =
     (case with_sharding_constraint conforms params grad_spec of
        Inl e \<Rightarrow> Inl e
      | Inr grads1 \<Rightarrow>
          (case with_sharding_constraint conforms grads1 grad_spec of
             Inl e \<Rightarrow> Inl e
           | Inr grads2 \<Rightarrow>
               (case optimizer_update grads2 optimizer_state params of
                  (updates, new_opt_state) \<Rightarrow>
                    (case tree_map2 jnp_add params updates of
                       Inl e \<Rightarrow> Inl e
                     | Inr new_params \<Rightarrow> Inr (new_params, new_opt_state)))))"


section \<open>What the specification says of the training step\<close>

text \<open>
  The microbatch of index \<open>i\<close>: at every leaf the entries of index \<open>i\<close> along the
  accumulation axis, all other axes unchanged.
\<close>

definition microbatch :: "'a batch_tensor pytree \<Rightarrow> nat \<Rightarrow> 'a list pytree" where
  "microbatch batch i = tree_map (\<lambda>x. map (\<lambda>row. row ! i) (rows x)) batch"

text \<open>
  \<open>r\<close> is the mean of the \<open>N\<close> pairs \<open>lg 0, ..., lg (N - 1)\<close> of a loss and a gradient
  tree: its loss is the arithmetic mean of the losses, its tree has the shape of the
  parameters, and every element of every leaf is the arithmetic mean of the elements at
  that place.
\<close>

definition is_mean_of ::
  "nat \<Rightarrow> (nat \<Rightarrow> real \<times> real list pytree) \<Rightarrow> real list pytree \<Rightarrow> real \<times> real list pytree
     \<Rightarrow> bool" where
  "is_mean_of N lg params r =
     (fst r = (\<Sum>i<N. fst (lg i)) / real N
      \<and> tree_shape (snd r) = tree_shape params
      \<and> (\<forall>j<length (tree_leaves params). \<forall>k<length (tree_leaves params ! j).
            tree_leaves (snd r) ! j ! k = (\<Sum>i<N. tree_leaves (snd (lg i)) ! j ! k) / real N))"

text \<open>
  The optimizer state updater as the specification words it: the partition spec is
  enforced on the parameters and on the supplied gradients, and the update rule runs on
  those gradients.
\<close>

definition update_opt_state_spec ::
  "(real list pytree \<Rightarrow> 'p \<Rightarrow> bool)
     \<Rightarrow> (real list pytree \<Rightarrow> 's \<Rightarrow> real list pytree \<Rightarrow> real list pytree \<times> 's)
     \<Rightarrow> real list pytree \<Rightarrow> 's \<Rightarrow> real list pytree \<Rightarrow> 'p
     \<Rightarrow> error + real list pytree \<times> 's" where
  "update_opt_state_spec conforms optimizer_update grads optimizer_state params grad_spec =
     (case with_sharding_constraint conforms params grad_spec of
        Inl e \<Rightarrow> Inl e
      | Inr params' \<Rightarrow>
          (case with_sharding_constraint conforms grads grad_spec of
             Inl e \<Rightarrow> Inl e
           | Inr grads' \<Rightarrow>
               (case optimizer_update grads' optimizer_state params' of
                  (updates, new_opt_state) \<Rightarrow>
                    (case tree_map2 jnp_add params' updates of
                       Inl e \<Rightarrow> Inl e
                     | Inr new_params \<Rightarrow> Inr (new_params, new_opt_state)))))"

text \<open>
  Concrete collaborators for the examples: plain gradient descent with learning rate one
  and no state, and a loss that sums the tokens of the minibatch, with a gradient that is
  that sum at every element.
\<close>

definition sgd_update ::
  "real list pytree \<Rightarrow> unit \<Rightarrow> real list pytree \<Rightarrow> real list pytree \<times> unit" where
  "sgd_update grads st params = (tree_map (map (\<lambda>g. - g)) grads, st)"

definition token_sum_grad_fn ::
  "real list pytree \<Rightarrow> nat list pytree \<Rightarrow> real \<times> real list pytree" where
  "token_sum_grad_fn params minibatch =
     (let loss = real (sum_list (concat (tree_leaves minibatch)))
      in (loss, tree_map (map (\<lambda>_. loss)) params))"


section \<open>Logits and the filtering policies (torch_compatability/generation.py)\<close>

text \<open>
  The logits that the model returns are finite; a filter sets an entry to its
  \<open>filter_value\<close>, by default \<open>-float("Inf")\<close>. A filtered logit is therefore either
  minus infinity or a real number. The decoding loop works on a batch of one prompt, so
  the tensor of shape \<open>(1, vocabulary)\<close> is the list of its entries.
\<close>

datatype logit = NegInf | Fin real

definition exp_logit :: "logit \<Rightarrow> real" where
  "exp_logit l = (case l of NegInf \<Rightarrow> 0 | Fin v \<Rightarrow> exp v)"

text \<open>\<open>F.softmax (.., dim=-1)\<close>, \<open>log_softmax\<close> and \<open>cumsum\<close>.\<close>

definition softmax :: "logit list \<Rightarrow> real list" where
  "softmax ls = map (\<lambda>l. exp_logit l / (\<Sum>m\<leftarrow>ls. exp_logit m)) ls"

definition log_softmax :: "real list \<Rightarrow> real list" where
  "log_softmax xs = map (\<lambda>v. v - ln (\<Sum>w\<leftarrow>xs. exp w)) xs"

fun cumsum_from :: "real \<Rightarrow> real list \<Rightarrow> real list" where
  "cumsum_from a [] = []"
| "cumsum_from a (v # vs) = (a + v) # cumsum_from (a + v) vs"

definition cumsum :: "real list \<Rightarrow> real list" where
  "cumsum xs = cumsum_from 0 xs"

text \<open>
  \<open>torch.sort\<close> returns the sorted values and the indices that sort them. PyTorch does
  not fix the order of equal values; the embedding keeps them in the order of their
  indices (a stable sort).
\<close>

definition torch_sort :: "bool \<Rightarrow> real list \<Rightarrow> real list \<times> nat list" where
  "torch_sort descending xs =
     (let sorted_indices =
            sort_key (\<lambda>i. if descending then - (xs ! i) else xs ! i) [0..<length xs]
      in (map (\<lambda>i. xs ! i) sorted_indices, sorted_indices))"

text \<open>
  \<open>top_k_logits\<close>: \<open>torch.topk\<close> raises when \<open>k\<close> is negative or exceeds the
  vocabulary; for \<open>k = 0\<close> the values are empty and \<open>v[:, [-1]]\<close> raises.
\<close>

definition top_k_logits :: "real list \<Rightarrow> int \<Rightarrow> error + logit list" where
  "top_k_logits logits k =
     (if k < 0 \<or> int (length logits) < k then Inl RuntimeError
      else if k = 0 then Inl IndexError
      else
        (let v = take (nat k) (fst (torch_sort True logits))
         in Inr (map (\<lambda>out. if out < last v then NegInf else Fin out) logits)))"

text \<open>\<open>logits[:, indices] = v\<close>: the entries at the listed indices are overwritten.\<close>

definition index_fill :: "logit list \<Rightarrow> nat list \<Rightarrow> logit \<Rightarrow> logit list" where
  "index_fill xs indices v = fold (\<lambda>i ys. ys[i := v]) indices xs"

text \<open>
  \<open>top_p_logits\<close> (lines 48 to 72). The removal mask is \<open>cumulative_probs > top_p\<close>,
  shifted right by one position with \<open>False\<close> in front; \<open>sorted_indices[mask]\<close> are the
  indices at the positions where the mask holds. On an empty vocabulary the assignment
  \<open>sorted_indices_to_remove[..., 0] = 0\<close> raises \<open>IndexError\<close>.

  Here the cumulative probabilities are exact, so they never exceed \<open>1\<close>. The code
  computes them in binary32, where a cumulative sum can exceed \<open>1.0\<close> before the last
  position; the code has no guard for \<open>top_p = 1.0\<close>. No statement below concludes
  anything from \<open>top_p \<ge> 1\<close>: what is kept is stated in terms of the cumulative
  probabilities themselves.
\<close>

definition top_p_logits :: "real list \<Rightarrow> real \<Rightarrow> logit \<Rightarrow> error + logit list" where
  "top_p_logits logits top_p filter_value =
     (if top_p > 0 then
        (case torch_sort True logits of (sorted_logits, sorted_indices) \<Rightarrow>
           (let cumulative_probs = cumsum (softmax (map Fin sorted_logits));
                sorted_indices_to_remove = map (\<lambda>c. c > top_p) cumulative_probs
            in if sorted_indices_to_remove = [] then Inl IndexError
               else
                 (let sorted_indices_to_remove' = False # butlast sorted_indices_to_remove;
                      indices_to_remove =
                        map fst (filter snd (zip sorted_indices sorted_indices_to_remove'))
                  in Inr (index_fill (map Fin logits) indices_to_remove filter_value))))
      else Inr (map Fin logits))"

text \<open>
  \<open>self.scatter(1, index, src)\<close>: a copy of \<open>self\<close> in which the entry at
  \<open>index[j]\<close> is \<open>src[j]\<close>, for every position \<open>j\<close>.
\<close>

definition scatter :: "'a list \<Rightarrow> nat list \<Rightarrow> 'a list \<Rightarrow> 'a list" where
  "scatter self index src = fold (\<lambda>(i, v) ys. ys[i := v]) (zip index src) self"

text \<open>
  \<open>typical_sampling_logits\<close> (lines 75 to 112), in four parts: the scores sorted in
  ascending order with their indices (lines 88 to 95), the cumulative probabilities in
  that order (lines 96 and 97), \<open>last_ind\<close> (lines 99 and 100),
  and the removal mask \<open>indices_to_remove\<close> with the final \<open>masked_fill\<close>. On finite
  logits \<open>nansum\<close> is the sum. \<open>last_ind\<close> counts the cumulative probabilities below
  \<open>mass\<close>; the code clamps it below at zero and not above, and \<open>gather\<close> raises when
  it is not an index of the vocabulary.

  Here the cumulative probabilities are exact, so the last one is exactly \<open>1\<close>. The code
  computes them in binary32, where the last one is often below \<open>1.0\<close>, so that already
  \<open>mass = 1.0\<close> can make \<open>last_ind\<close> the size of the vocabulary. No statement below
  concludes that \<open>last_ind\<close> is in range from a bound on \<open>mass\<close>: what is stated is
  stated in terms of the cumulative probabilities themselves.
\<close>

definition typical_sorted :: "real list \<Rightarrow> real list \<times> nat list" where
  "typical_sorted logits =
     (let normalized = log_softmax logits;
          p = map exp normalized;
          ent = - (\<Sum>(n, q)\<leftarrow>zip normalized p. n * q);
          shifted_scores = map (\<lambda>n. \<bar>(- n) - ent\<bar>) normalized
      in torch_sort False shifted_scores)"

definition typical_cumulative_probs :: "real list \<Rightarrow> real list" where
  "typical_cumulative_probs logits =
     (let sorted_indices = snd (typical_sorted logits);
          sorted_logits = map (\<lambda>i. logits ! i) sorted_indices
      in cumsum (softmax (map Fin sorted_logits)))"

definition typical_last_ind :: "real list \<Rightarrow> real \<Rightarrow> int" where
  "typical_last_ind logits mass =
     (let cumulative_probs = typical_cumulative_probs logits;
          last_ind = int (length (filter (\<lambda>c. c < mass) cumulative_probs))
      in if last_ind < 0 then 0 else last_ind)"

definition typical_indices_to_remove :: "real list \<Rightarrow> real \<Rightarrow> int \<Rightarrow> error + bool list" where
  "typical_indices_to_remove logits mass min_tokens_to_keep =
     (case typical_sorted logits of (sorted_scores, sorted_indices) \<Rightarrow>
        (let last_ind = typical_last_ind logits mass
         in if int (length sorted_scores) \<le> last_ind then Inl RuntimeError
            else
              (let sorted_indices_to_remove =
                     map (\<lambda>s. s > sorted_scores ! nat last_ind) sorted_scores;
                   sorted_indices_to_remove' =
                     (if min_tokens_to_keep > 1
                      then replicate (min (nat min_tokens_to_keep)
                                        (length sorted_indices_to_remove)) False
                             @ drop (nat min_tokens_to_keep) sorted_indices_to_remove
                      else sorted_indices_to_remove)
               in Inr (scatter sorted_indices_to_remove' sorted_indices
                         sorted_indices_to_remove'))))"

definition typical_sampling_logits ::
  "real list \<Rightarrow> real \<Rightarrow> int \<Rightarrow> logit \<Rightarrow> error + logit list" where
  "typical_sampling_logits logits mass min_tokens_to_keep filter_value =
     (case typical_indices_to_remove logits mass min_tokens_to_keep of
        Inl e \<Rightarrow> Inl e
      | Inr indices_to_remove \<Rightarrow>
          Inr (map (\<lambda>(r, v). if r then filter_value else Fin v) (zip indices_to_remove logits)))"


section \<open>The decoding engine: \<open>TextGenerator\<close>\<close>

text \<open>
  \<open>generate_tokens\<close> returns a pair on one path and a triple on the others; both shapes
  are results.
\<close>

datatype gen_result = Pair "nat list" int | Triple "nat list" int "real list"

text \<open>
  The attributes of \<open>TextGenerator\<close>: the tokenizer (an opaque collaborator with
  \<open>encode\<close> and \<open>decode\<close>), \<open>seq_len\<close> and \<open>pad_token\<close>, which \<open>__init__\<close> sets to
  the tokenizer's end-of-sequence id.
\<close>

record text_generator =
  tokenizer_encode :: "string \<Rightarrow> nat list"
  tokenizer_decode :: "nat list \<Rightarrow> string"
  seq_len :: int
  pad_token :: nat

text \<open>
  The variables of the loop of \<open>generate_tokens\<close>: \<open>x\<close>, \<open>x_cond\<close>, \<open>layer_past\<close>,
  \<open>generated_tokens\<close> and \<open>logprobs\<close>, and the number of forward calls of the model
  made so far, which the code does not hold but which a statement about the order of an
  error and the first forward call needs.
\<close>

record 'c gen_state =
  st_x :: "nat list"
  st_x_cond :: "nat list"
  st_layer_past :: "'c option"
  st_generated_tokens :: "nat list"
  st_logprobs :: "real list"
  st_calls :: nat

text \<open>
  One iteration either goes on with a new state, or leaves the function, by \<open>return\<close> or
  by an exception, after some number of forward calls.
\<close>

datatype 'c step_out = Continue "'c gen_state" | Stop nat "error + gen_result"

text \<open>
  The repetition penalty (lines 221 to 225): for every token of the history in turn, its
  logit is multiplied by the penalty when negative and divided by it otherwise. A token
  that is not an index of the logits raises \<open>IndexError\<close>.
\<close>

fun penalty_loop :: "real \<Rightarrow> nat list \<Rightarrow> real list \<Rightarrow> error + real list" where
  "penalty_loop repetition_penalty [] logits = Inr logits"
| "penalty_loop repetition_penalty (prev_gen_token # rest) logits =
     (if prev_gen_token < length logits then
        penalty_loop repetition_penalty rest
          (logits[prev_gen_token :=
             (if logits ! prev_gen_token < 0 then logits ! prev_gen_token * repetition_penalty
              else logits ! prev_gen_token / repetition_penalty)])
      else Inl IndexError)"

text \<open>
  The dispatch on the name of the sampling method (lines 227 to 234). The parameters
  \<open>top_k\<close>, \<open>top_p\<close> and \<open>tau\<close> can be \<open>None\<close> (the default of
  \<open>generate_text_from_prompt\<close>), on which the chosen filter raises \<open>TypeError\<close>. Any
  other name, and no name, filter nothing.
\<close>

definition filter_logits ::
  "string option \<Rightarrow> int option \<Rightarrow> real option \<Rightarrow> real option \<Rightarrow> real list
     \<Rightarrow> error + logit list" where
  "filter_logits sampling_method top_k top_p tau logits =
     (if sampling_method = Some ''nucleus'' then
        (case top_p of None \<Rightarrow> Inl TypeError | Some p \<Rightarrow> top_p_logits logits p NegInf)
      else if sampling_method = Some ''typical'' then
        (case tau of None \<Rightarrow> Inl TypeError | Some m \<Rightarrow> typical_sampling_logits logits m 1 NegInf)
      else if sampling_method = Some ''topk'' then
        (case top_k of None \<Rightarrow> Inl TypeError | Some k \<Rightarrow> top_k_logits logits k)
      else Inr (map Fin logits))"

text \<open>\<open>torch.topk(probs, k=1).indices\<close>: the index of the greatest probability.\<close>

definition argmax :: "real list \<Rightarrow> nat" where
  "argmax probs = hd (snd (torch_sort True probs))"

text \<open>
  The body of the loop (lines 208 to 253) at the index \<open>step\<close>. \<open>model\<close> is the forward
  pass: from the input tokens and the cache it returns the logits of every input position
  and the new cache. \<open>multinomial\<close> is the random draw of \<open>torch.multinomial\<close>: the
  token it returns for the draw of a step from the given probabilities; the function
  raises on an empty or all-zero distribution and never returns an index outside it.

  In the branch \<open>greedy\<close> the token is appended to \<open>x\<close> before the test for the
  end-of-sequence token, the function returns a pair, and \<open>generated_tokens\<close> is not
  updated; the update of the history stands in the other branch.
\<close>

definition gen_step ::
  "text_generator \<Rightarrow> (nat list \<Rightarrow> 'c option \<Rightarrow> real list list \<times> 'c) \<Rightarrow> (nat \<Rightarrow> real list \<Rightarrow> nat)
     \<Rightarrow> real \<Rightarrow> int option \<Rightarrow> real option \<Rightarrow> real option \<Rightarrow> real \<Rightarrow> string option
     \<Rightarrow> nat \<Rightarrow> 'c gen_state \<Rightarrow> 'c step_out" where
  "gen_step self model multinomial temperature top_k top_p tau repetition_penalty
       sampling_method step st =
     (case model (st_x_cond st) (st_layer_past st) of (model_logits, layer_past) \<Rightarrow>
        (let calls = Suc (st_calls st) in
         if model_logits = [] then Stop calls (Inl IndexError)
         else
           (case penalty_loop repetition_penalty (st_generated_tokens st)
                   (map (\<lambda>v. v / temperature) (last model_logits)) of
              Inl e \<Rightarrow> Stop calls (Inl e)
            | Inr penalised \<Rightarrow>
                (case filter_logits sampling_method top_k top_p tau penalised of
                   Inl e \<Rightarrow> Stop calls (Inl e)
                 | Inr logits \<Rightarrow>
                     (let probs = softmax logits in
                      if sampling_method = Some ''greedy'' then
                        (if probs = [] then Stop calls (Inl RuntimeError)
                         else
                           (let tok = argmax probs; x = st_x st @ [tok] in
                            if tok = pad_token self then Stop calls (Inr (Pair x (int step)))
                            else Continue (st\<lparr>st_x := x, st_x_cond := [tok],
                                     st_layer_past := Some layer_past, st_calls := calls\<rparr>)))
                      else
                        (if probs = [] \<or> sum_list probs = 0 then Stop calls (Inl RuntimeError)
                         else
                           (let tok = multinomial step probs in
                            if length probs \<le> tok then Stop calls (Inl RuntimeError)
                            else
                              (let logprobs = st_logprobs st @ [ln (probs ! tok)] in
                               if tok = pad_token self
                               then Stop calls (Inr (Triple (st_x st) (int step) logprobs))
                               else Continue (st\<lparr>st_x := st_x st @ [tok], st_x_cond := [tok],
                                        st_layer_past := Some layer_past,
                                        st_generated_tokens :=
                                          (if tok \<in> set (st_generated_tokens st)
                                           then st_generated_tokens st
                                           else st_generated_tokens st @ [tok]),
                                        st_logprobs := logprobs, st_calls := calls\<rparr>)))))))))"

text \<open>
  The loop \<open>for step in range(steps)\<close>, over the list of its indices, and the final
  \<open>return x, steps, logprobs\<close>.
\<close>

fun generate_loop ::
  "text_generator \<Rightarrow> (nat list \<Rightarrow> 'c option \<Rightarrow> real list list \<times> 'c) \<Rightarrow> (nat \<Rightarrow> real list \<Rightarrow> nat)
     \<Rightarrow> real \<Rightarrow> int option \<Rightarrow> real option \<Rightarrow> real option \<Rightarrow> real \<Rightarrow> string option
     \<Rightarrow> int \<Rightarrow> nat list \<Rightarrow> 'c gen_state \<Rightarrow> nat \<times> (error + gen_result)" where
  "generate_loop self model multinomial temperature top_k top_p tau repetition_penalty
       sampling_method steps [] st =
     (st_calls st, Inr (Triple (st_x st) steps (st_logprobs st)))"
| "generate_loop self model multinomial temperature top_k top_p tau repetition_penalty
       sampling_method steps (step # rest) st =
     (case gen_step self model multinomial temperature top_k top_p tau repetition_penalty
             sampling_method step st of
        Stop calls r \<Rightarrow> (calls, r)
      | Continue st' \<Rightarrow>
          generate_loop self model multinomial temperature top_k top_p tau repetition_penalty
            sampling_method steps rest st')"

text \<open>
  \<open>generate_tokens\<close> (lines 172 to 255). \<open>strip\<close> is Python's \<open>str.strip\<close>, kept
  abstract. The result is the number of forward calls made and what the function returns
  or raises.
\<close>

definition generate_tokens ::
  "text_generator \<Rightarrow> (string \<Rightarrow> string) \<Rightarrow> (nat list \<Rightarrow> 'c option \<Rightarrow> real list list \<times> 'c)
     \<Rightarrow> (nat \<Rightarrow> real list \<Rightarrow> nat) \<Rightarrow> string \<Rightarrow> int \<Rightarrow> real \<Rightarrow> int option \<Rightarrow> real option
     \<Rightarrow> real option \<Rightarrow> real \<Rightarrow> string option \<Rightarrow> nat \<times> (error + gen_result)" where
  "generate_tokens self strip model multinomial prompt steps temperature top_k top_p tau
       repetition_penalty sampling_method =
     (let tokens = tokenizer_encode self (strip prompt);
          x = tokens;
          x_cond = (if int (length x) > seq_len self then py_slice_from (- seq_len self) x else x)
      in generate_loop self model multinomial temperature top_k top_p tau repetition_penalty
           sampling_method steps [0..<nat steps]
           \<lparr>st_x = x, st_x_cond = x_cond, st_layer_past = None, st_generated_tokens = [],
            st_logprobs = [], st_calls = 0\<rparr>)"

text \<open>
  \<open>token_to_text\<close> (lines 160 to 170): \<open>tok[0, -step:]\<close> is the slice from \<open>-step\<close>
  of the only row; \<open>"".join\<close> of a string is the string.
\<close>

definition token_to_text :: "text_generator \<Rightarrow> string \<Rightarrow> nat list \<Rightarrow> int \<Rightarrow> string \<times> string" where
  "token_to_text self inp tok step =
     (let new_words = py_slice_from (- step) tok;
          generated_text = tokenizer_decode self new_words
      in (inp @ generated_text, generated_text))"

text \<open>
  \<open>generate_text_from_prompt\<close> (lines 131 to 158). \<open>text_standardize\<close> is the
  module's cleaning of the prompt by regular expressions, kept abstract: nothing below
  depends on what it rewrites. Unpacking a pair into the three names
  \<open>output, step, logprobs\<close> raises \<open>ValueError\<close>.
\<close>

definition generate_text_from_prompt ::
  "text_generator \<Rightarrow> (string \<Rightarrow> string) \<Rightarrow> (string \<Rightarrow> string)
     \<Rightarrow> (nat list \<Rightarrow> 'c option \<Rightarrow> real list list \<times> 'c)
     \<Rightarrow> (nat \<Rightarrow> real list \<Rightarrow> nat) \<Rightarrow> string \<Rightarrow> int \<Rightarrow> real \<Rightarrow> int option \<Rightarrow> real option
     \<Rightarrow> real option \<Rightarrow> real \<Rightarrow> string option \<Rightarrow> nat \<times> (error + string \<times> string \<times> real list)" where
  "generate_text_from_prompt self text_standardize strip model multinomial prompt steps
       temperature top_k top_p tau repetition_penalty sampling_method =
     (case generate_tokens self strip model multinomial (text_standardize prompt) steps
             temperature top_k top_p tau repetition_penalty sampling_method of
        (calls, Inl e) \<Rightarrow> (calls, Inl e)
      | (calls, Inr (Pair output step)) \<Rightarrow> (calls, Inl ValueError)
      | (calls, Inr (Triple output step logprobs)) \<Rightarrow>
          (case token_to_text self prompt output step of
             (full_gen, new_gen) \<Rightarrow> (calls, Inr (full_gen, new_gen, logprobs))))"


section \<open>What the specification says of the filters\<close>

text \<open>
  The number of tokens that top-p sampling keeps, counted along the descending order of
  the logits. \<open>nucleus_size\<close> counts through the first position whose cumulative
  probability exceeds the threshold; \<open>nucleus_size_claimed\<close> counts through the first
  position whose cumulative probability meets or exceeds it. Both keep every token when no
  position qualifies.
\<close>

definition nucleus_size :: "real list \<Rightarrow> real \<Rightarrow> nat" where
  "nucleus_size logits top_p =
     (let cumulative_probs = cumsum (softmax (map Fin (fst (torch_sort True logits))))
      in min (length logits) (Suc (length (takeWhile (\<lambda>c. c \<le> top_p) cumulative_probs))))"

definition nucleus_size_claimed :: "real list \<Rightarrow> real \<Rightarrow> nat" where
  "nucleus_size_claimed logits top_p =
     (let cumulative_probs = cumsum (softmax (map Fin (fst (torch_sort True logits))))
      in min (length logits) (Suc (length (takeWhile (\<lambda>c. c < top_p) cumulative_probs))))"

text \<open>
  Concrete collaborators for the examples: a tokenizer that encodes every prompt as the
  tokens \<open>5, 6\<close> and whose end-of-sequence token is \<open>0\<close>, and a model over a vocabulary
  of two tokens whose cache counts the forward calls: the first call favours token
  \<open>1\<close> (probabilities \<open>1/4\<close> and \<open>3/4\<close> at temperature one), every later call
  favours token \<open>0\<close>.
\<close>

definition stub_generator :: text_generator where
  "stub_generator = \<lparr>tokenizer_encode = (\<lambda>s. [5, 6]), tokenizer_decode = map (\<lambda>t. CHR ''a''),
     seq_len = 8, pad_token = 0\<rparr>"

definition stub_model :: "nat list \<Rightarrow> nat option \<Rightarrow> real list list \<times> nat" where
  "stub_model x_cond past =
     (case past of None \<Rightarrow> ([[0, ln 3]], 1) | Some n \<Rightarrow> ([[ln 3, 0]], Suc n))"


section \<open>Lemmas on slicing and the cache\<close>


lemma py_slice_from_last:
  "0 < n \<Longrightarrow> py_slice_from (- int n) xs = drop (length xs - n) xs"
proof -
  assume n: "0 < n"
  have "nat (int (length xs) - int n) = length xs - n" by simp
  with n show ?thesis by (simp add: py_slice_from_def)
qed

lemma length_py_slice_from_last:
  "0 < n \<Longrightarrow> length (py_slice_from (- int n) xs) = min (length xs) n"
  by (simp add: py_slice_from_last)

lemma present_with_past:
  assumes "0 < n"
  shows "causal_attention_present (int n) True (Some (pk, pv)) k v =
           Some (drop (length (pk @ k) - n) (pk @ k), drop (length (pv @ v) - n) (pv @ v))"
  using assms py_slice_from_last [of n "pk @ k"] py_slice_from_last [of n "pv @ v"]
  by (simp add: causal_attention_present_def)

lemma present_within:
  assumes "0 < n"
  shows "cache_within n (causal_attention_present (int n) True (Some (pk, pv)) k v)"
proof -
  have "length (py_slice_from (- int n) (pk @ k)) \<le> n"
    using length_py_slice_from_last [OF assms, of "pk @ k"] by simp
  moreover have "length (py_slice_from (- int n) (pv @ v)) \<le> n"
    using length_py_slice_from_last [OF assms, of "pv @ v"] by simp
  ultimately show ?thesis
    by (simp add: causal_attention_present_def cache_within_def)
qed

lemma decode_cache_within:
  assumes "0 < n" and "cache_within n c" and "c \<noteq> None"
  shows "cache_within n (decode_cache (int n) kvs c)"
  using assms(2,3)
proof (induction kvs arbitrary: c)
  case Nil
  then show ?case by simp
next
  case (Cons kv kvs)
  obtain k v where kv: "kv = (k, v)" by (cases kv)
  from Cons.prems obtain pk pv where c: "c = Some (pk, pv)" by (cases c) auto
  have "cache_within n (causal_attention_present (int n) True c k v)"
    unfolding c using assms(1) by (rule present_within)
  moreover have "causal_attention_present (int n) True c k v \<noteq> None"
    by (simp add: causal_attention_present_def c)
  ultimately show ?case
    using Cons.IH by (simp add: kv)
qed


section \<open>Lemmas on pytrees and the accumulation\<close>

lemma leaves_map_pytree:
  "tree_leaves (map_pytree f t) = map f (tree_leaves t)"
  "items_leaves (map (map_prod id (map_pytree f)) xs) = map f (items_leaves xs)"
  by (induction t and xs rule: tree_leaves_items_leaves.induct) (simp_all add: id_def)

lemma tree_map_err_total:
  "(\<forall>x \<in> set (tree_leaves t). f x = Inr (g x)) \<Longrightarrow> tree_map_err f t = Inr (map_pytree g t)"
  "(\<forall>x \<in> set (items_leaves xs). f x = Inr (g x)) \<Longrightarrow>
     tree_map_err_items f xs = Inr (map (map_prod id (map_pytree g)) xs)"
  by (induction t and xs rule: tree_leaves_items_leaves.induct) (simp_all add: id_def)

lemma length_leaves_shape:
  "tree_shape a = tree_shape b \<Longrightarrow> length (tree_leaves a) = length (tree_leaves b)"
proof -
  assume "tree_shape a = tree_shape b"
  then have "tree_leaves (map_pytree length a) = tree_leaves (map_pytree length b)"
    by (simp add: tree_shape_def)
  then have "map length (tree_leaves a) = map length (tree_leaves b)"
    by (simp add: leaves_map_pytree)
  then show ?thesis by (rule map_eq_imp_length_eq)
qed

lemma tree_add_shape_aux:
  "f = jnp_add \<Longrightarrow> map_pytree length a = map_pytree length b \<Longrightarrow>
     \<exists>c. tree_map2 f a b = Inr c \<and> map_pytree length c = map_pytree length a
       \<and> tree_leaves c = map2 (map2 (+)) (tree_leaves a) (tree_leaves b)"
  "f = jnp_add \<Longrightarrow>
     map (map_prod (\<lambda>k. k) (map_pytree length)) xs
       = map (map_prod (\<lambda>k. k) (map_pytree length)) ys \<Longrightarrow>
     \<exists>zs. tree_map2_items f xs ys = Inr zs
       \<and> map (map_prod (\<lambda>k. k) (map_pytree length)) zs
           = map (map_prod (\<lambda>k. k) (map_pytree length)) xs
       \<and> items_leaves zs = map2 (map2 (+)) (items_leaves xs) (items_leaves ys)"
proof (induction f a b and f xs ys rule: tree_map2_tree_map2_items.induct)
  case (1 f a b)
  then show ?case by (simp add: jnp_add_def)
next
  case (2 f xs ys)
  from "2.prems" have "map (map_prod (\<lambda>k. k) (map_pytree length)) xs
       = map (map_prod (\<lambda>k. k) (map_pytree length)) ys"
    by (simp add: id_def)
  from "2.IH" [OF "2.prems"(1) this] show ?case by (auto simp: id_def)
next
  case (6 f k s xs k' t ys)
  from "6.prems" have k: "k = k'" and st: "map_pytree length s = map_pytree length t"
    and rest: "map (map_prod (\<lambda>k. k) (map_pytree length)) xs
                 = map (map_prod (\<lambda>k. k) (map_pytree length)) ys"
    by simp_all
  from "6.IH"(1) [OF k "6.prems"(1) st] obtain u where
    u: "tree_map2 f s t = Inr u" "map_pytree length u = map_pytree length s"
       "tree_leaves u = map2 (map2 (+)) (tree_leaves s) (tree_leaves t)" by blast
  from "6.IH"(2) [OF k u(1) "6.prems"(1) rest] obtain zs where
    zs: "tree_map2_items f xs ys = Inr zs"
        "map (map_prod (\<lambda>k. k) (map_pytree length)) zs
           = map (map_prod (\<lambda>k. k) (map_pytree length)) xs"
        "items_leaves zs = map2 (map2 (+)) (items_leaves xs) (items_leaves ys)" by blast
  have len: "length (tree_leaves s) = length (tree_leaves t)"
    using st by (intro length_leaves_shape) (simp add: tree_shape_def)
  show ?case using k u zs len by simp
qed simp_all

lemma tree_add_shape:
  assumes "tree_shape a = tree_shape b"
  shows "\<exists>c. tree_map2 jnp_add a b = Inr c \<and> tree_shape c = tree_shape a
       \<and> tree_leaves c = map2 (map2 (+)) (tree_leaves a) (tree_leaves b)"
  using tree_add_shape_aux(1) [OF refl, of a b] assms by (simp add: tree_shape_def)


lemma lengths_leaves_shape:
  assumes "tree_shape a = tree_shape b"
  shows "map length (tree_leaves a) = map length (tree_leaves b)"
proof -
  from assms have "tree_leaves (map_pytree length a) = tree_leaves (map_pytree length b)"
    by (simp add: tree_shape_def)
  then show ?thesis by (simp add: leaves_map_pytree)
qed

lemma length_leaf_shape:
  assumes "tree_shape a = tree_shape b" and "j < length (tree_leaves a)"
  shows "length (tree_leaves a ! j) = length (tree_leaves b ! j)"
proof -
  have "map length (tree_leaves a) ! j = map length (tree_leaves b) ! j"
    using lengths_leaves_shape [OF assms(1)] by simp
  moreover have "j < length (tree_leaves b)"
    using length_leaves_shape [OF assms(1)] assms(2) by simp
  ultimately show ?thesis using assms(2) by simp
qed

lemma tree_shape_zeros: "tree_shape (tree_map zeros_like params) = tree_shape params"
proof -
  have "length \<circ> zeros_like = length" by (rule ext) (simp add: zeros_like_def)
  then show ?thesis by (simp add: tree_shape_def tree_map_def pytree.map_comp)
qed

lemma leaves_zeros:
  "tree_leaves (tree_map zeros_like params) = map zeros_like (tree_leaves params)"
  by (simp add: tree_map_def leaves_map_pytree)

lemma fori_list_snoc:
  "fori_list (is @ [i]) body v =
     (case fori_list is body v of Inl e \<Rightarrow> Inl e | Inr v' \<Rightarrow> body i v')"
  by (induction "is" arbitrary: v) (simp_all split: sum.splits)

lemma accumulate_loop:
  assumes lg: "\<And>i. i < N \<Longrightarrow> lag i = Inr (l i, g i)"
    and sh: "\<And>i. i < N \<Longrightarrow> tree_shape (g i) = tree_shape params"
  shows "n \<le> N \<Longrightarrow>
    \<exists>G. fori_list [0..<n] (cumul_minibatch_step lag) (0, tree_map zeros_like params)
           = Inr (\<Sum>i<n. l i, G)
       \<and> tree_shape G = tree_shape params
       \<and> (\<forall>j<length (tree_leaves params). \<forall>k<length (tree_leaves params ! j).
            tree_leaves G ! j ! k = (\<Sum>i<n. tree_leaves (g i) ! j ! k))"
proof (induction n)
  case 0
  show ?case
    by (simp add: tree_shape_zeros leaves_zeros) (simp add: zeros_like_def)
next
  case (Suc n)
  then have n: "n < N" by simp
  from Suc obtain G where
    run: "fori_list [0..<n] (cumul_minibatch_step lag) (0, tree_map zeros_like params)
           = Inr (\<Sum>i<n. l i, G)"
    and shG: "tree_shape G = tree_shape params"
    and val: "\<forall>j<length (tree_leaves params). \<forall>k<length (tree_leaves params ! j).
            tree_leaves G ! j ! k = (\<Sum>i<n. tree_leaves (g i) ! j ! k)"
    by auto
  have shg: "tree_shape G = tree_shape (g n)" using shG sh [OF n] by simp
  from tree_add_shape [OF shg] obtain G' where
    add: "tree_map2 jnp_add G (g n) = Inr G'" and shG': "tree_shape G' = tree_shape G"
    and lv: "tree_leaves G' = map2 (map2 (+)) (tree_leaves G) (tree_leaves (g n))"
    by blast
  have step: "fori_list [0..<Suc n] (cumul_minibatch_step lag)
                (0, tree_map zeros_like params) = Inr ((\<Sum>i<Suc n. l i), G')"
    by (simp add: fori_list_snoc run cumul_minibatch_step_def lg [OF n] add)
  have lenG: "length (tree_leaves G) = length (tree_leaves params)"
    using length_leaves_shape [OF shG] .
  have leng: "length (tree_leaves (g n)) = length (tree_leaves params)"
    using length_leaves_shape [OF sh [OF n]] .
  have pt: "tree_leaves G' ! j ! k = (\<Sum>i<Suc n. tree_leaves (g i) ! j ! k)"
    if j: "j < length (tree_leaves params)" and k: "k < length (tree_leaves params ! j)" for j k
  proof -
    have l1: "length (tree_leaves G ! j) = length (tree_leaves params ! j)"
      using length_leaf_shape [OF shG] j lenG by simp
    have l2: "length (tree_leaves (g n) ! j) = length (tree_leaves params ! j)"
      using length_leaf_shape [OF sh [OF n]] j leng by simp
    have "tree_leaves G' ! j = map2 (+) (tree_leaves G ! j) (tree_leaves (g n) ! j)"
      using j lenG leng by (simp add: lv)
    then have "tree_leaves G' ! j ! k = tree_leaves G ! j ! k + tree_leaves (g n) ! j ! k"
      using k l1 l2 by simp
    then show ?thesis using val j k by simp
  qed
  show ?case using step shG' shG pt by auto
qed

lemma accumulate_mean:
  assumes lg: "\<And>i. i < N \<Longrightarrow> lag i = Inr (l i, g i)"
    and sh: "\<And>i. i < N \<Longrightarrow> tree_shape (g i) = tree_shape params"
  shows "\<exists>G. accumulate lag params N = Inr ((\<Sum>i<N. l i) / real N, G)
       \<and> tree_shape G = tree_shape params
       \<and> (\<forall>j<length (tree_leaves params). \<forall>k<length (tree_leaves params ! j).
            tree_leaves G ! j ! k = (\<Sum>i<N. tree_leaves (g i) ! j ! k) / real N)"
proof -
  from accumulate_loop [of N lag l g params N, OF lg sh] obtain S where
    run: "fori_list [0..<N] (cumul_minibatch_step lag) (0, tree_map zeros_like params)
           = Inr (\<Sum>i<N. l i, S)"
    and shS: "tree_shape S = tree_shape params"
    and val: "\<forall>j<length (tree_leaves params). \<forall>k<length (tree_leaves params ! j).
            tree_leaves S ! j ! k = (\<Sum>i<N. tree_leaves (g i) ! j ! k)"
    by auto
  let ?G = "tree_map (map (\<lambda>x. x / real N)) S"
  have res: "accumulate lag params N = Inr ((\<Sum>i<N. l i) / real N, ?G)"
    by (simp add: accumulate_def fori_loop_def run)
  have "length \<circ> map (\<lambda>x::real. x / real N) = length" by (rule ext) simp
  then have shG: "tree_shape ?G = tree_shape params"
    using shS by (simp add: tree_shape_def tree_map_def pytree.map_comp)
  have lenS: "length (tree_leaves S) = length (tree_leaves params)"
    using length_leaves_shape [OF shS] .
  have pt: "tree_leaves ?G ! j ! k = (\<Sum>i<N. tree_leaves (g i) ! j ! k) / real N"
    if j: "j < length (tree_leaves params)" and k: "k < length (tree_leaves params ! j)" for j k
  proof -
    have l1: "length (tree_leaves S ! j) = length (tree_leaves params ! j)"
      using length_leaf_shape [OF shS] j lenS by simp
    show ?thesis using j k l1 lenS val by (simp add: tree_map_def leaves_map_pytree)
  qed
  show ?thesis using res shG pt by blast
qed


lemma clamp_index_in_range:
  "0 \<le> i \<Longrightarrow> i < int d \<Longrightarrow> clamp_index d i = nat i"
  by (simp add: clamp_index_def Let_def)

lemma clamp_index_bound: "0 < d \<Longrightarrow> clamp_index d i < d"
  by (auto simp add: clamp_index_def Let_def)

lemma get_minibatch_total:
  assumes "\<forall>x \<in> set (tree_leaves batch). 0 < axis1_size x"
  shows "get_minibatch batch idx =
           Inr (tree_map (\<lambda>x. map (\<lambda>row. row ! clamp_index (axis1_size x) idx) (rows x)) batch)"
  unfolding get_minibatch_def tree_map_def
  by (rule tree_map_err_total(1)) (use assms in \<open>simp add: dynamic_index_in_dim_def\<close>)

lemma map_pytree_cong_leaves:
  "(\<forall>x \<in> set (tree_leaves t). f x = g x) \<Longrightarrow> map_pytree f t = map_pytree g t"
  "(\<forall>x \<in> set (items_leaves xs). f x = g x) \<Longrightarrow>
     map (map_prod (\<lambda>k. k) (map_pytree f)) xs = map (map_prod (\<lambda>k. k) (map_pytree g)) xs"
  by (induction t and xs rule: tree_leaves_items_leaves.induct) (simp_all add: id_def)

lemma get_minibatch_microbatch:
  assumes "0 < N" and "\<forall>x \<in> set (tree_leaves batch). axis1_size x = N" and "i < N"
  shows "get_minibatch batch (int i) = Inr (microbatch batch i)"
proof -
  have pos: "\<forall>x \<in> set (tree_leaves batch). 0 < axis1_size x" using assms(1,2) by simp
  have "tree_map (\<lambda>x. map (\<lambda>row. row ! clamp_index (axis1_size x) (int i)) (rows x)) batch
        = microbatch batch i"
    unfolding tree_map_def microbatch_def
    by (rule map_pytree_cong_leaves(1)) (use assms in \<open>simp add: clamp_index_in_range\<close>)
  with get_minibatch_total [OF pos] show ?thesis by simp
qed


lemma fori_list_cong:
  "(\<And>i. i \<in> set is \<Longrightarrow> f i = g i) \<Longrightarrow> fori_list is f v = fori_list is g v"
  by (induction "is" arbitrary: v) (simp_all split: sum.splits)

lemma accumulate_cong:
  assumes "\<And>i. i < N \<Longrightarrow> lag i = lag' i"
  shows "accumulate lag params N = accumulate lag' params N"
proof -
  have "fori_list [0..<N] (cumul_minibatch_step lag) v
          = fori_list [0..<N] (cumul_minibatch_step lag') v" for v
    by (rule fori_list_cong) (rule ext, simp add: cumul_minibatch_step_def assms)
  then show ?thesis by (simp add: accumulate_def fori_loop_def)
qed


section \<open>Lemmas on the filters\<close>

lemma length_cumsum_from: "length (cumsum_from a xs) = length xs"
  by (induction xs arbitrary: a) simp_all

lemma cumsum_from_lower:
  "(\<forall>v \<in> set xs. 0 \<le> v) \<Longrightarrow> \<forall>c \<in> set (cumsum_from a xs). a \<le> c"
proof (induction xs arbitrary: a)
  case Nil
  then show ?case by simp
next
  case (Cons v vs)
  then have "\<forall>c \<in> set (cumsum_from (a + v) vs). a + v \<le> c" by simp
  moreover have "0 \<le> v" using Cons.prems by simp
  ultimately show ?case by fastforce
qed

lemma cumsum_from_upper:
  "(\<forall>v \<in> set xs. 0 \<le> v) \<Longrightarrow> \<forall>c \<in> set (cumsum_from a xs). c \<le> a + sum_list xs"
proof (induction xs arbitrary: a)
  case Nil
  then show ?case by simp
next
  case (Cons v vs)
  then have "\<forall>c \<in> set (cumsum_from (a + v) vs). c \<le> a + v + sum_list vs" by simp
  moreover have "0 \<le> sum_list vs" using Cons.prems by (simp add: sum_list_nonneg)
  ultimately show ?case by fastforce
qed

lemma sorted_cumsum_from:
  "(\<forall>v \<in> set xs. 0 \<le> v) \<Longrightarrow> sorted (cumsum_from a xs)"
proof (induction xs arbitrary: a)
  case Nil
  then show ?case by simp
next
  case (Cons v vs)
  have "\<forall>c \<in> set (cumsum_from (a + v) vs). a + v \<le> c"
    using Cons.prems by (intro cumsum_from_lower) simp
  then show ?case using Cons by simp
qed

lemma last_cumsum_from:
  "xs \<noteq> [] \<Longrightarrow> last (cumsum_from a xs) = a + sum_list xs"
proof (induction xs arbitrary: a)
  case Nil
  then show ?case by simp
next
  case (Cons v vs)
  then show ?case by (cases vs) simp_all
qed

lemma length_softmax: "length (softmax ls) = length ls"
  by (simp add: softmax_def)

lemma sum_list_divide_const:
  "sum_list (map (\<lambda>x. f x / (c::real)) xs) = sum_list (map f xs) / c"
  by (induction xs) (simp_all add: add_divide_distrib)

lemma sum_exp_pos: "xs \<noteq> [] \<Longrightarrow> 0 < (\<Sum>v\<leftarrow>xs. exp (v::real))"
proof (cases xs)
  case Nil
  assume "xs \<noteq> []"
  with Nil show ?thesis by simp
next
  case (Cons v vs)
  have "0 \<le> (\<Sum>w\<leftarrow>vs. exp w)" by (intro sum_list_nonneg) auto
  moreover have "0 < exp v" by simp
  ultimately show ?thesis unfolding Cons by (simp add: add_pos_nonneg)
qed

lemma softmax_Fin: "softmax (map Fin xs) = map (\<lambda>v. exp v / (\<Sum>w\<leftarrow>xs. exp w)) xs"
  by (simp add: softmax_def exp_logit_def comp_def)

lemma softmax_nonneg: "\<forall>q \<in> set (softmax (map Fin xs)). 0 \<le> q"
  by (auto simp: softmax_Fin intro!: divide_nonneg_nonneg sum_list_nonneg)

lemma softmax_sum: "xs \<noteq> [] \<Longrightarrow> sum_list (softmax (map Fin xs)) = 1"
  using sum_exp_pos [of xs] by (simp add: softmax_Fin sum_list_divide_const)

lemma map_pred_all_True: "(\<forall>v \<in> set xs. P v) \<Longrightarrow> map P xs = replicate (length xs) True"
  by (induction xs) simp_all

lemma sorted_threshold_mask:
  "sorted ys \<Longrightarrow>
     map (\<lambda>c. (p::real) < c) ys =
       replicate (length (takeWhile (\<lambda>c. c \<le> p) ys)) False
         @ replicate (length ys - length (takeWhile (\<lambda>c. c \<le> p) ys)) True"
proof (induction ys)
  case Nil
  then show ?case by simp
next
  case (Cons y ys)
  show ?case
  proof (cases "y \<le> p")
    case True
    then show ?thesis using Cons by simp
  next
    case False
    then have "\<forall>c \<in> set ys. p < c" using Cons.prems by auto
    then have "map (\<lambda>c. p < c) ys = replicate (length ys) True" by (rule map_pred_all_True)
    then show ?thesis using False by simp
  qed
qed

lemma length_takeWhile_butlast:
  "length (takeWhile P (butlast xs)) = min (length xs - 1) (length (takeWhile P xs))"
proof (induction xs)
  case Nil
  then show ?case by simp
next
  case (Cons v vs)
  show ?case
  proof (cases vs)
    case Nil
    then show ?thesis by simp
  next
    case (Cons w ws)
    then have "0 < length vs" by simp
    then show ?thesis using Cons.IH Cons by (auto simp: min_def)
  qed
qed

lemma filter_zip_mask:
  assumes "length ix = m + k"
  shows "map fst (filter snd (zip ix (replicate m False @ replicate k True))) = drop m ix"
proof -
  have ix: "ix = take m ix @ drop m ix" by simp
  have l1: "length (take m ix) = length (replicate m False)" using assms by simp
  have "zip ix (replicate m False @ replicate k True)
        = zip (take m ix) (replicate m False) @ zip (drop m ix) (replicate k True)"
    by (subst ix, subst zip_append [OF l1]) simp
  moreover have "filter snd (zip (take m ix) (replicate m False)) = []"
    by (auto simp: filter_empty_conv dest!: set_zip_rightD)
  moreover have "filter snd (zip (drop m ix) (replicate k True)) = zip (drop m ix) (replicate k True)"
    by (auto simp: filter_id_conv dest!: set_zip_rightD)
  moreover have "map fst (zip (drop m ix) (replicate k True)) = drop m ix"
    using assms by simp
  ultimately show ?thesis by simp
qed

lemma length_fold_update: "length (fold (\<lambda>i ys. ys[i := v]) ixs xs) = length xs"
  by (induction ixs arbitrary: xs) simp_all

lemma nth_fold_update:
  "t < length xs \<Longrightarrow>
     fold (\<lambda>i ys. ys[i := v]) ixs xs ! t = (if t \<in> set ixs then v else xs ! t)"
proof (induction ixs arbitrary: xs)
  case Nil
  then show ?case by simp
next
  case (Cons i ixs)
  have "fold (\<lambda>i ys. ys[i := v]) ixs (xs[i := v]) ! t
          = (if t \<in> set ixs then v else xs[i := v] ! t)"
    using Cons.prems by (intro Cons.IH) simp
  then show ?case using Cons.prems by (auto simp: nth_list_update)
qed

lemma torch_sort_indices:
  "length (snd (torch_sort d xs)) = length xs"
  "distinct (snd (torch_sort d xs))"
  "set (snd (torch_sort d xs)) = {..<length xs}"
  "mset (snd (torch_sort d xs)) = mset [0..<length xs]"
  "length (fst (torch_sort d xs)) = length xs"
  by (auto simp: torch_sort_def Let_def)

lemma torch_sort_nonempty: "xs \<noteq> [] \<Longrightarrow> fst (torch_sort d xs) \<noteq> []"
  using torch_sort_indices(5) [of d xs] by (cases "fst (torch_sort d xs)") auto


lemma top_p_mask:
  assumes "cum \<noteq> []" and "sorted cum"
  shows "False # butlast (map (\<lambda>c. (p::real) < c) cum) =
           replicate (min (length cum) (Suc (length (takeWhile (\<lambda>c. c \<le> p) cum)))) False
           @ replicate (length cum - min (length cum) (Suc (length (takeWhile (\<lambda>c. c \<le> p) cum)))) True"
proof -
  let ?n = "length (takeWhile (\<lambda>c. c \<le> p) (butlast cum))"
  have pos: "0 < length cum" using assms(1) by simp
  have "sorted (butlast cum)" using assms(2) by (rule sorted_butlast)
  then have "map (\<lambda>c. p < c) (butlast cum) =
      replicate ?n False @ replicate (length (butlast cum) - ?n) True"
    by (rule sorted_threshold_mask)
  then have "False # butlast (map (\<lambda>c. p < c) cum) =
      replicate (Suc ?n) False @ replicate (length cum - 1 - ?n) True"
    by (simp add: map_butlast)
  moreover have "Suc ?n = min (length cum) (Suc (length (takeWhile (\<lambda>c. c \<le> p) cum)))"
    using pos by (cases "length cum") (simp_all add: length_takeWhile_butlast)
  moreover have "length cum - 1 - ?n = length cum - Suc ?n" by simp
  ultimately show ?thesis by simp
qed

lemma top_p_characterisation:
  assumes "0 < top_p" and "logits \<noteq> []"
  shows "top_p_logits logits top_p fv =
     Inr (map (\<lambda>t. if t \<in> set (take (nucleus_size logits top_p) (snd (torch_sort True logits)))
                    then Fin (logits ! t) else fv) [0..<length logits])"
proof -
  obtain sl ix where ts: "torch_sort True logits = (sl, ix)" by (cases "torch_sort True logits")
  let ?cum = "cumsum (softmax (map Fin sl))"
  let ?m = "nucleus_size logits top_p"
  have len_sl: "length sl = length logits" and len_ix: "length ix = length logits"
    and dist: "distinct ix" and set_ix: "set ix = {..<length logits}"
    using torch_sort_indices [of True logits] by (simp_all add: ts)
  have len_cum: "length ?cum = length logits"
    by (simp add: cumsum_def length_cumsum_from length_softmax len_sl)
  have cum_ne: "?cum \<noteq> []" using len_cum assms(2) by auto
  have srt: "sorted ?cum"
    unfolding cumsum_def by (rule sorted_cumsum_from) (rule softmax_nonneg)
  have m: "?m = min (length ?cum) (Suc (length (takeWhile (\<lambda>c. c \<le> top_p) ?cum)))"
    by (simp add: nucleus_size_def ts len_cum)
  have mask: "False # butlast (map (\<lambda>c. top_p < c) ?cum) =
                replicate ?m False @ replicate (length ?cum - ?m) True"
    using top_p_mask [OF cum_ne srt, of top_p] by (simp only: m)
  have m_le: "?m \<le> length logits" by (simp add: m len_cum)
  have rem: "map fst (filter snd (zip ix (False # butlast (map (\<lambda>c. top_p < c) ?cum)))) = drop ?m ix"
    unfolding mask by (rule filter_zip_mask) (use m_le len_ix len_cum in simp)
  have res: "top_p_logits logits top_p fv = Inr (index_fill (map Fin logits) (drop ?m ix) fv)"
    using assms(1) cum_ne by (simp add: top_p_logits_def ts Let_def rem)
  have "index_fill (map Fin logits) (drop ?m ix) fv =
          map (\<lambda>t. if t \<in> set (take ?m ix) then Fin (logits ! t) else fv) [0..<length logits]"
  proof (rule nth_equalityI)
    show "length (index_fill (map Fin logits) (drop ?m ix) fv) =
          length (map (\<lambda>t. if t \<in> set (take ?m ix) then Fin (logits ! t) else fv) [0..<length logits])"
      by (simp add: index_fill_def length_fold_update)
  next
    fix t assume "t < length (index_fill (map Fin logits) (drop ?m ix) fv)"
    then have t: "t < length logits" by (simp add: index_fill_def length_fold_update)
    then have "t \<in> set ix" using set_ix by simp
    then have "t \<in> set (take ?m ix) \<or> t \<in> set (drop ?m ix)"
      using set_append [of "take ?m ix" "drop ?m ix"] by auto
    moreover have "set (take ?m ix) \<inter> set (drop ?m ix) = {}"
      using dist distinct_append [of "take ?m ix" "drop ?m ix"] by simp
    ultimately have "t \<in> set (drop ?m ix) \<longleftrightarrow> t \<notin> set (take ?m ix)" by auto
    then show "index_fill (map Fin logits) (drop ?m ix) fv ! t =
          map (\<lambda>t. if t \<in> set (take ?m ix) then Fin (logits ! t) else fv) [0..<length logits] ! t"
      using t by (simp add: index_fill_def nth_fold_update)
  qed
  then show ?thesis by (simp add: res ts)
qed

lemma nucleus_size_pos: "logits \<noteq> [] \<Longrightarrow> 1 \<le> nucleus_size logits top_p"
  by (cases logits) (simp_all add: nucleus_size_def Let_def)

lemma takeWhile_all_but_last:
  assumes "xs \<noteq> []"
  shows "(min (length xs) (Suc (length (takeWhile P xs))) = length xs)
           = (\<forall>x \<in> set (butlast xs). P x)"
proof
  assume m: "min (length xs) (Suc (length (takeWhile P xs))) = length xs"
  then have k: "length xs - 1 \<le> length (takeWhile P xs)" by simp
  show "\<forall>x \<in> set (butlast xs). P x"
  proof
    fix x assume "x \<in> set (butlast xs)"
    then obtain i where i: "i < length (butlast xs)" "butlast xs ! i = x"
      by (auto simp add: in_set_conv_nth)
    have il: "i < length (takeWhile P xs)" using i(1) k by simp
    then have "takeWhile P xs ! i = xs ! i" by (rule takeWhile_nth)
    moreover have "butlast xs ! i = xs ! i" using i(1) by (simp add: nth_butlast)
    ultimately have "takeWhile P xs ! i = x" using i(2) by simp
    then have "x \<in> set (takeWhile P xs)" using il nth_mem by fastforce
    then show "P x" by (rule set_takeWhileD [THEN conjunct2])
  qed
next
  assume a: "\<forall>x \<in> set (butlast xs). P x"
  have "xs = butlast xs @ [last xs]" using assms by simp
  then have "takeWhile P xs = takeWhile P (butlast xs @ [last xs])" by simp
  also have "\<dots> = butlast xs @ takeWhile P [last xs]"
    using a by (intro takeWhile_append2) simp
  finally have "length (butlast xs) \<le> length (takeWhile P xs)" by simp
  then have "length xs - 1 \<le> length (takeWhile P xs)" by simp
  moreover have "0 < length xs" using assms by simp
  ultimately show "min (length xs) (Suc (length (takeWhile P xs))) = length xs"
    by arith
qed

lemma nucleus_size_all:
  assumes "logits \<noteq> []"
  shows "(nucleus_size logits top_p = length logits)
           = (\<forall>c \<in> set (butlast (cumsum (softmax (map Fin (fst (torch_sort True logits)))))).
                c \<le> top_p)"
proof -
  let ?cum = "cumsum (softmax (map Fin (fst (torch_sort True logits))))"
  have len: "length ?cum = length logits"
    by (simp add: cumsum_def length_cumsum_from length_softmax torch_sort_indices)
  then have ne: "?cum \<noteq> []" using assms by auto
  have "(min (length ?cum) (Suc (length (takeWhile (\<lambda>c. c \<le> top_p) ?cum))) = length ?cum)
          = (\<forall>c \<in> set (butlast ?cum). c \<le> top_p)"
    using ne by (rule takeWhile_all_but_last)
  then show ?thesis unfolding nucleus_size_def Let_def by (simp only: len)
qed

lemma length_fold_pairs:
  "length (fold (\<lambda>(i, v) ys. ys[i := v]) ps ys) = length ys"
  by (induction ps arbitrary: ys) (simp_all split: prod.splits)

lemma nth_fold_pairs:
  "distinct (map fst ps) \<Longrightarrow> t < length ys \<Longrightarrow>
     fold (\<lambda>(i, v) ys. ys[i := v]) ps ys ! t
       = (case map_of ps t of Some v \<Rightarrow> v | None \<Rightarrow> ys ! t)"
proof (induction ps arbitrary: ys)
  case Nil
  then show ?case by simp
next
  case (Cons p ps)
  obtain i v where p: "p = (i, v)" by (cases p)
  have d: "distinct (map fst ps)" and notin: "i \<notin> fst ` set ps"
    using Cons.prems(1) by (simp_all add: p)
  have IH: "fold (\<lambda>(i, v) ys. ys[i := v]) ps (ys[i := v]) ! t
              = (case map_of ps t of Some w \<Rightarrow> w | None \<Rightarrow> ys[i := v] ! t)"
    using Cons.prems(2) by (intro Cons.IH [OF d]) simp
  show ?case
  proof (cases "t = i")
    case True
    then have "map_of ps t = None" using notin by (simp add: map_of_eq_None_iff)
    then show ?thesis using IH True Cons.prems(2) by (simp add: p)
  next
    case False
    then show ?thesis using IH by (simp add: p split: option.splits)
  qed
qed

lemma scatter_nth:
  assumes "distinct ix" and "length ix = length src" and "length self = length src"
    and "set ix = {..<length src}" and "j < length src"
  shows "scatter self ix src ! (ix ! j) = src ! j"
proof -
  have t: "ix ! j < length self" using assms(2,3,4,5) nth_mem [of j ix] by auto
  have "distinct (map fst (zip ix src))" using assms(1,2) by (simp add: map_fst_zip)
  then have "scatter self ix src ! (ix ! j)
      = (case map_of (zip ix src) (ix ! j) of Some v \<Rightarrow> v | None \<Rightarrow> self ! (ix ! j))"
    unfolding scatter_def using t by (rule nth_fold_pairs)
  moreover have "map_of (zip ix src) (ix ! j) = Some (src ! j)"
    using assms(1,2,5) by (intro map_of_zip_nth) simp_all
  ultimately show ?thesis by simp
qed

lemma scatter_mset:
  assumes "distinct ix" and "length ix = length src" and "length self = length src"
    and "mset ix = mset [0..<length src]"
  shows "mset (scatter self ix src) = mset src" and "length (scatter self ix src) = length src"
proof -
  let ?out = "scatter self ix src"
  let ?f = "\<lambda>i. ?out ! i"
  show len: "length ?out = length src" by (simp add: scatter_def length_fold_pairs assms(3))
  have "set ix = set [0..<length src]" using assms(4) by (rule mset_eq_setD)
  then have set_ix: "set ix = {..<length src}" by (simp add: lessThan_atLeast0)
  have "map ?f ix = src"
  proof (rule nth_equalityI)
    show "length (map ?f ix) = length src" using assms(2) by simp
  next
    fix j assume "j < length (map ?f ix)"
    then have j: "j < length src" using assms(2) by simp
    then have "j < length ix" using assms(2) by simp
    then have "map ?f ix ! j = ?out ! (ix ! j)" by (rule nth_map)
    then show "map ?f ix ! j = src ! j"
      using scatter_nth [OF assms(1,2,3) set_ix j] by (simp only:)
  qed
  then have "mset src = mset (map ?f ix)" by (rule arg_cong [OF sym])
  also have "\<dots> = image_mset ?f (mset ix)" by (rule mset_map)
  also have "\<dots> = image_mset ?f (mset [0..<length src])" by (simp only: assms(4))
  also have "\<dots> = mset (map ?f [0..<length src])" by (rule mset_map [symmetric])
  also have "\<dots> = mset (map ?f [0..<length ?out])" by (simp only: len)
  also have "\<dots> = mset ?out" by (simp only: map_nth)
  finally show "mset ?out = mset src" by (rule sym)
qed

lemma count_false_prefix:
  assumes "k \<le> length xs" and "\<forall>j<k. \<not> xs ! j"
  shows "k \<le> length (filter Not xs)"
proof -
  have "\<forall>b \<in> set (take k xs). \<not> b"
    using assms by (auto simp: in_set_conv_nth)
  then have "filter Not (take k xs) = take k xs" by (simp add: filter_id_conv)
  then have "length (filter Not (take k xs)) = k" using assms(1) by simp
  moreover have "filter Not xs = filter Not (take k xs) @ filter Not (drop k xs)"
    by (metis append_take_drop_id filter_append)
  ultimately show ?thesis by simp
qed

lemma sorted_torch_sort_ascending: "sorted (fst (torch_sort False xs))"
proof -
  have "sorted (map (\<lambda>i. xs ! i) (sort_key (\<lambda>i. xs ! i) [0..<length xs]))"
    by (rule sorted_sort_key)
  then show ?thesis by (simp add: torch_sort_def Let_def)
qed

lemma sorted_torch_sort_descending: "sorted (rev (fst (torch_sort True xs)))"
proof -
  let ?ix = "sort_key (\<lambda>i. - (xs ! i)) [0..<length xs]"
  have "sorted (map (\<lambda>i. - (xs ! i)) ?ix)" by (rule sorted_sort_key)
  then have "sorted_wrt (\<lambda>a b. xs ! b \<le> xs ! a) ?ix" by (simp add: sorted_map)
  then have "sorted_wrt (\<lambda>a b. b \<le> a) (map (\<lambda>i. xs ! i) ?ix)" by (simp add: sorted_wrt_map)
  then show ?thesis by (simp add: torch_sort_def Let_def sorted_wrt_rev)
qed

lemma typical_sorted_facts:
  "length (fst (typical_sorted logits)) = length logits"
  "length (snd (typical_sorted logits)) = length logits"
  "distinct (snd (typical_sorted logits))"
  "mset (snd (typical_sorted logits)) = mset [0..<length logits]"
  "sorted (fst (typical_sorted logits))"
  by (simp_all add: typical_sorted_def Let_def torch_sort_indices log_softmax_def
        sorted_torch_sort_ascending)

lemma length_typical_cumulative_probs:
  "length (typical_cumulative_probs logits) = length logits"
  by (simp add: typical_cumulative_probs_def Let_def cumsum_def length_cumsum_from
        length_softmax typical_sorted_facts)

lemma typical_last_ind_nonneg: "0 \<le> typical_last_ind logits mass"
  by (simp add: typical_last_ind_def Let_def)

lemma typical_last_ind_in_range:
  assumes "c \<in> set (typical_cumulative_probs logits)" and "mass \<le> c"
  shows "typical_last_ind logits mass < int (length logits)"
proof -
  have "\<not> c < mass" using assms(2) by simp
  with assms(1) have "length (filter (\<lambda>c. c < mass) (typical_cumulative_probs logits))
      < length (typical_cumulative_probs logits)"
    by (intro length_filter_less)
  then show ?thesis
    by (simp add: typical_last_ind_def Let_def length_typical_cumulative_probs)
qed

lemma typical_last_ind_overflow:
  assumes "\<forall>c \<in> set (typical_cumulative_probs logits). c < mass"
  shows "typical_last_ind logits mass = int (length logits)"
proof -
  have "filter (\<lambda>c. c < mass) (typical_cumulative_probs logits) = typical_cumulative_probs logits"
    using assms by simp
  then have "length (filter (\<lambda>c. c < mass) (typical_cumulative_probs logits))
      = length (typical_cumulative_probs logits)" by (rule arg_cong)
  then show ?thesis
    by (simp add: typical_last_ind_def Let_def length_typical_cumulative_probs)
qed

lemma typical_raises_on_overflow:
  assumes "\<forall>c \<in> set (typical_cumulative_probs logits). c < mass"
  shows "typical_indices_to_remove logits mass min_tokens_to_keep = Inl RuntimeError"
    and "typical_sampling_logits logits mass min_tokens_to_keep filter_value = Inl RuntimeError"
proof -
  obtain ss ix where ts: "typical_sorted logits = (ss, ix)" by (cases "typical_sorted logits")
  have len_ss: "length ss = length logits"
    using typical_sorted_facts(1) [of logits] by (simp add: ts)
  show r: "typical_indices_to_remove logits mass min_tokens_to_keep = Inl RuntimeError"
    by (simp add: typical_indices_to_remove_def ts typical_last_ind_overflow [OF assms] len_ss)
  show "typical_sampling_logits logits mass min_tokens_to_keep filter_value = Inl RuntimeError"
    by (simp add: typical_sampling_logits_def r)
qed

lemma length_filter_mset_eq:
  assumes "mset xs = mset ys"
  shows "length (filter P xs) = length (filter P ys)"
proof -
  have "mset (filter P xs) = mset (filter P ys)" using assms by simp
  then show ?thesis by (rule mset_eq_length)
qed

lemma typical_mask_prefix:
  fixes ss :: "real list"
  assumes "sorted ss" and "li < length ss" and "1 \<le> k" and "k \<le> length ss"
  defines "msk \<equiv> map (\<lambda>s. s > ss ! li) ss"
  shows "\<forall>j<k. \<not> (if 1 < k then replicate (min k (length msk)) False @ drop k msk
                    else msk) ! j"
proof (cases "1 < k")
  case True
  have "min k (length msk) = k" using assms(4) by (simp add: msk_def)
  then show ?thesis using True by (simp add: nth_append)
next
  case False
  then have k: "k = 1" using assms(3) by simp
  have "ss ! 0 \<le> ss ! li" using assms(1,2) by (intro sorted_nth_mono) simp_all
  moreover have "0 < length ss" using assms(2) by (cases ss) simp_all
  ultimately have "\<not> msk ! 0" by (simp add: msk_def)
  then show ?thesis using k by simp
qed


lemma typical_keeps:
  assumes liV: "typical_last_ind logits mass < int (length logits)" and k1: "1 \<le> k"
    and kV: "k \<le> int (length logits)"
  shows "\<exists>rm. typical_indices_to_remove logits mass k = Inr rm
           \<and> length rm = length logits \<and> nat k \<le> length (filter Not rm)"
proof -
  obtain ss ix where ts: "typical_sorted logits = (ss, ix)" by (cases "typical_sorted logits")
  have len_ss: "length ss = length logits" and len_ix: "length ix = length logits"
    and dist: "distinct ix" and perm: "mset ix = mset [0..<length logits]"
    and srt: "sorted ss"
    using typical_sorted_facts [of logits] by (simp_all add: ts)
  define li where "li = nat (typical_last_ind logits mass)"
  have li0: "0 \<le> typical_last_ind logits mass" by (rule typical_last_ind_nonneg)
  have li: "li < length ss" using li0 liV by (simp add: li_def len_ss)
  define msk where "msk = map (\<lambda>s. s > ss ! li) ss"
  define msk' where "msk' = (if 1 < nat k then replicate (min (nat k) (length msk)) False
                                  @ drop (nat k) msk else msk)"
  have kn1: "1 \<le> nat k" and kn: "nat k \<le> length ss" using k1 kV by (simp_all add: len_ss)
  have keq: "(1 < k) = (1 < nat k)" by auto
  have len_msk: "length msk = length logits" by (simp add: msk_def len_ss)
  have len_msk': "length msk' = length logits"
    using kn by (simp add: msk'_def len_msk len_ss)
  have notle: "\<not> int (length ss) \<le> typical_last_ind logits mass"
    using liV by (simp add: len_ss)
  have res: "typical_indices_to_remove logits mass k = Inr (scatter msk' ix msk')"
    unfolding typical_indices_to_remove_def ts Let_def prod.case if_not_P [OF notle]
      keq msk'_def msk_def li_def
    by (rule refl)
  have pre: "\<forall>j<nat k. \<not> msk' ! j"
    unfolding msk'_def msk_def by (rule typical_mask_prefix [OF srt li kn1 kn])
  have cnt: "nat k \<le> length (filter Not msk')"
    using kn len_msk' pre by (intro count_false_prefix) (simp_all add: len_ss)
  have len_ix': "length ix = length msk'" and perm': "mset ix = mset [0..<length msk']"
    using len_ix perm len_msk' by simp_all
  have ms: "mset (scatter msk' ix msk') = mset msk'"
    and lo: "length (scatter msk' ix msk') = length msk'"
    by (rule scatter_mset [OF dist len_ix' refl perm'])+
  have "length (filter Not (scatter msk' ix msk')) = length (filter Not msk')"
    using ms by (rule length_filter_mset_eq)
  with cnt have c: "nat k \<le> length (filter Not (scatter msk' ix msk'))" by simp
  have l: "length (scatter msk' ix msk') = length logits" using lo len_msk' by simp
  show ?thesis using res l c by blast
qed


section \<open>Lemmas on the decoding loop\<close>


lemma gen_step_continue:
  "gen_step self model multinomial temperature top_k top_p tau rp sm step st = Continue st'
     \<Longrightarrow> st_calls st' = Suc (st_calls st) \<and> (\<exists>tok. st_x st' = st_x st @ [tok])"
  by (auto simp: gen_step_def Let_def split: prod.splits sum.splits if_splits)

lemma gen_step_triple:
  "gen_step self model multinomial temperature top_k top_p tau rp sm step st
     = Stop c (Inr (Triple x' s lp))
     \<Longrightarrow> x' = st_x st \<and> s = int step \<and> sm \<noteq> Some ''greedy''"
  by (auto simp: gen_step_def Let_def split: prod.splits sum.splits if_splits)




lemma generate_loop_triple:
  "generate_loop self model multinomial temperature top_k top_p tau rp sm steps ixs st
     = (c, Inr (Triple x' s lp))
   \<Longrightarrow> take (length (st_x st)) x' = st_x st
       \<and> ((s = steps \<and> length x' = length (st_x st) + length ixs)
            \<or> (\<exists>j<length ixs. s = int (ixs ! j) \<and> length x' = length (st_x st) + j
                  \<and> sm \<noteq> Some ''greedy''))"
proof (induction ixs arbitrary: st)
  case Nil
  then show ?case by auto
next
  case (Cons i ixs)
  show ?case
  proof (cases "gen_step self model multinomial temperature top_k top_p tau rp sm i st")
    case (Continue st')
    then obtain tok where x': "st_x st' = st_x st @ [tok]"
      using gen_step_continue by blast
    from Cons.prems Continue have
      "generate_loop self model multinomial temperature top_k top_p tau rp sm steps ixs st'
         = (c, Inr (Triple x' s lp))" by simp
    from Cons.IH [OF this] have
      pre: "take (length (st_x st')) x' = st_x st'"
      and alt: "(s = steps \<and> length x' = length (st_x st') + length ixs)
            \<or> (\<exists>j<length ixs. s = int (ixs ! j) \<and> length x' = length (st_x st') + j
                  \<and> sm \<noteq> Some ''greedy'')"
      by simp_all
    have "take (length (st_x st)) x' = take (length (st_x st)) (take (length (st_x st')) x')"
      by (simp add: x' min_def)
    also have "\<dots> = take (length (st_x st)) (st_x st')" by (simp only: pre)
    also have "\<dots> = st_x st" by (simp add: x')
    finally have p: "take (length (st_x st)) x' = st_x st" .
    from alt show ?thesis
    proof
      assume "s = steps \<and> length x' = length (st_x st') + length ixs"
      then show ?thesis using p by (simp add: x')
    next
      assume "\<exists>j<length ixs. s = int (ixs ! j) \<and> length x' = length (st_x st') + j
                  \<and> sm \<noteq> Some ''greedy''"
      then obtain j where j: "j < length ixs" "s = int (ixs ! j)"
        "length x' = length (st_x st') + j" "sm \<noteq> Some ''greedy''" by blast
      have "Suc j < length (i # ixs) \<and> s = int ((i # ixs) ! Suc j)
              \<and> length x' = length (st_x st) + Suc j \<and> sm \<noteq> Some ''greedy''"
        using j by (simp add: x')
      then show ?thesis using p by blast
    qed
  next
    case (Stop c' r)
    with Cons.prems have r: "r = Inr (Triple x' s lp)" by simp
    from gen_step_triple [OF Stop [unfolded r]]
    have "x' = st_x st" "s = int i" "sm \<noteq> Some ''greedy''" by simp_all
    then have "0 < length (i # ixs) \<and> s = int ((i # ixs) ! 0)
                 \<and> length x' = length (st_x st) + 0 \<and> sm \<noteq> Some ''greedy''"
      by simp
    moreover have "take (length (st_x st)) x' = st_x st" using \<open>x' = st_x st\<close> by simp
    ultimately show ?thesis by blast
  qed
qed





section \<open>Further lemmas on the decoding loop\<close>

lemma gen_step_greedy_penalty:
  assumes "st_generated_tokens st = []"
  shows "gen_step self model multinomial temperature top_k top_p tau rp (Some ''greedy'') step st
       = gen_step self model multinomial temperature top_k top_p tau rp' (Some ''greedy'') step st"
  unfolding gen_step_def assms penalty_loop.simps by (rule refl)

lemma gen_step_greedy_history:
  assumes "gen_step self model multinomial temperature top_k top_p tau rp (Some ''greedy'') step st
             = Continue st'"
  shows "st_generated_tokens st' = st_generated_tokens st"
  using assms
  by (auto simp: gen_step_def Let_def split: prod.splits sum.splits if_splits)

lemma generate_loop_greedy_penalty:
  "st_generated_tokens st = [] \<Longrightarrow>
     generate_loop self model multinomial temperature top_k top_p tau rp (Some ''greedy'') steps
       ixs st
     = generate_loop self model multinomial temperature top_k top_p tau rp' (Some ''greedy'')
         steps ixs st"
proof (induction ixs arbitrary: st)
  case Nil
  then show ?case by simp
next
  case (Cons i ixs)
  have eq: "gen_step self model multinomial temperature top_k top_p tau rp (Some ''greedy'') i st
       = gen_step self model multinomial temperature top_k top_p tau rp' (Some ''greedy'') i st"
    using Cons.prems by (rule gen_step_greedy_penalty)
  show ?case
  proof (cases "gen_step self model multinomial temperature top_k top_p tau rp' (Some ''greedy'')
                  i st")
    case (Continue st')
    then have "st_generated_tokens st' = []"
      using gen_step_greedy_history [of self model multinomial temperature top_k top_p tau rp'
          i st st'] Cons.prems by simp
    from Cons.IH [OF this] show ?thesis by (simp add: eq Continue)
  next
    case (Stop c r)
    then show ?thesis by (simp add: eq)
  qed
qed

lemma gen_step_continue_not_pad:
  assumes "gen_step self model multinomial temperature top_k top_p tau rp sm step st = Continue st'"
  shows "\<exists>tok. st_x st' = st_x st @ [tok] \<and> tok \<noteq> pad_token self"
  using assms
  by (auto simp: gen_step_def Let_def split: prod.splits sum.splits if_splits)

lemma generate_loop_no_pad:
  "generate_loop self model multinomial temperature top_k top_p tau rp sm steps ixs st
     = (c, Inr (Triple x' s lp))
   \<Longrightarrow> pad_token self \<notin> set (drop (length (st_x st)) x')"
proof (induction ixs arbitrary: st)
  case Nil
  then show ?case by auto
next
  case (Cons i ixs)
  show ?case
  proof (cases "gen_step self model multinomial temperature top_k top_p tau rp sm i st")
    case (Continue st')
    then obtain tok where x': "st_x st' = st_x st @ [tok]" and tok: "tok \<noteq> pad_token self"
      using gen_step_continue_not_pad by blast
    from Cons.prems Continue have run:
      "generate_loop self model multinomial temperature top_k top_p tau rp sm steps ixs st'
         = (c, Inr (Triple x' s lp))" by simp
    from generate_loop_triple [OF run] have "take (length (st_x st')) x' = st_x st'" by simp
    then have "x' = st_x st' @ drop (length (st_x st')) x'"
      by (metis append_take_drop_id)
    then have "x' = st_x st @ tok # drop (length (st_x st')) x'" by (simp add: x')
    then have "drop (length (st_x st)) x' = tok # drop (length (st_x st')) x'"
      by (metis append_eq_conv_conj)
    with Cons.IH [OF run] tok show ?thesis by simp
  next
    case (Stop c' r)
    with Cons.prems have r: "r = Inr (Triple x' s lp)" by simp
    from gen_step_triple [OF Stop [unfolded r]] show ?thesis by simp
  qed
qed


section \<open>Further lemmas on typical sampling\<close>

lemma typical_returns_in_range:
  assumes "typical_last_ind logits mass < int (length logits)"
  shows "\<exists>indices_to_remove.
           typical_indices_to_remove logits mass min_tokens_to_keep = Inr indices_to_remove"
proof -
  obtain ss ix where ts: "typical_sorted logits = (ss, ix)" by (cases "typical_sorted logits")
  have len_ss: "length ss = length logits"
    using typical_sorted_facts(1) [of logits] by (simp add: ts)
  show ?thesis using assms
    by (simp add: typical_indices_to_remove_def ts len_ss Let_def)
qed

text \<open>
  Two tokens of probabilities \<open>3/4\<close> and \<open>1/4\<close>: the entropy is
  \<open>ln 4 - 3/4 * ln 3\<close>, the scores are \<open>1/4 * ln 3\<close> and \<open>3/4 * ln 3\<close>.
\<close>

lemma typical_sorted_example:
  "typical_sorted [ln 3, 0] = ([ln 3 / 4, 3 * ln 3 / 4], [0, 1])"
proof -
  have pos: "0 < ln (3::real)" by simp
  have ls: "log_softmax [ln 3, 0] = [ln 3 - ln 4, - ln 4]"
    by (simp add: log_softmax_def)
  show ?thesis
    apply (simp add: typical_sorted_def ls torch_sort_def upt_rec exp_diff exp_minus Let_def)
    using pos apply argo
    done
qed

lemma typical_cumulative_probs_example:
  "typical_cumulative_probs [ln 3, 0] = [3 / 4, 1]"
  by (simp add: typical_cumulative_probs_def typical_sorted_example softmax_def exp_logit_def
        cumsum_def)

text \<open>The same two tokens in the other order, as the stub model returns them first.\<close>

lemma typical_sorted_stub_logits:
  "typical_sorted [0, ln 3] = ([ln 3 / 4, 3 * ln 3 / 4], [1, 0])"
proof -
  have pos: "0 < ln (3::real)" by simp
  have ls: "log_softmax [0, ln 3] = [- ln 4, ln 3 - ln 4]"
    by (simp add: log_softmax_def)
  show ?thesis
    apply (simp add: typical_sorted_def ls torch_sort_def upt_rec exp_diff exp_minus Let_def)
    using pos apply argo
    done
qed

lemma typical_cumulative_probs_stub_logits:
  "typical_cumulative_probs [0, ln 3] = [3 / 4, 1]"
  by (simp add: typical_cumulative_probs_def typical_sorted_stub_logits softmax_def
        exp_logit_def cumsum_def)


section \<open>The claims\<close>

subsection \<open>C1: the optimizer state updater\<close>

text \<open>
  C1: \<open>update_opt_state\<close> enforces the partition spec on the parameters and on the
  supplied gradients, runs the update rule on those gradients, and adds the deltas to the
  parameters.

  The code does not do so: line 103 overwrites \<open>grads\<close> with the constrained
  parameters, so the update rule runs on the parameters. With gradient descent, the
  parameter \<open>1\<close> and the gradient \<open>0\<close>, the updater as specified leaves the parameter
  at \<open>1\<close>; the code returns \<open>1 - 1 = 0\<close>.
\<close>

theorem C1_update_rule_runs_on_params:
  "update_opt_state (\<lambda>_ _. True) sgd_update (Leaf [0]) () (Leaf [1]) () = Inr (Leaf [0], ())
   \<and> update_opt_state_spec (\<lambda>_ _. True) sgd_update (Leaf [0]) () (Leaf [1]) ()
       = Inr (Leaf [1], ())"
  by (simp add: update_opt_state_def update_opt_state_spec_def with_sharding_constraint_def
      sgd_update_def tree_map_def jnp_add_def)

subsection \<open>C2: the gradient accumulator\<close>

text \<open>
  C2: for an accumulation count \<open>N\<close> and a batch whose accumulation axis has length
  \<open>N\<close> at every leaf, the accumulator of \<open>train_step\<close> starts from zero, adds the loss
  and the gradients of the microbatches \<open>0, ..., N - 1\<close> in order and divides both sums
  by \<open>N\<close>: the loss is the arithmetic mean of the \<open>N\<close> losses and the gradient tree is
  the elementwise mean of the \<open>N\<close> gradient trees. \<open>train_step\<close> of
  xmap_train_functions.py returns that pair through \<open>pmean\<close>; \<open>train_step\<close> of
  benchmark_pjit_dp.py applies the mean gradients to the state and returns the mean loss.

  The count is positive (the mean of no losses is not defined), and the gradients have the
  shape of the parameters, as those of \<open>jax.value_and_grad\<close> do.
\<close>

theorem C2_accumulator_mean:
  assumes "0 < N"
    and "\<forall>x \<in> set (tree_leaves batch). wf_batch_tensor x \<and> axis1_size x = N"
    and "\<forall>i<N. tree_shape (snd (grad_fn params (microbatch batch i))) = tree_shape params"
    and "\<forall>i<N. conforms (microbatch batch i) dp_spec"
    and "state_params state = params"
  shows "\<exists>r. accumulate (loss_and_grad grad_fn params batch) params N = Inr r
           \<and> is_mean_of N (\<lambda>i. grad_fn params (microbatch batch i)) params r
           \<and> train_step grad_fn pmean_loss pmean_grads params batch N =
               Inr (pmean_grads (snd r),
                    [(''Train LM Loss'', pmean_loss (fst r)),
                     (''Train LM PPL'', exp (pmean_loss (fst r)))])
           \<and> pjit_train_step conforms dp_spec grad_fn state_params apply_gradients state
                 batch N =
               Inr (apply_gradients state (snd r),
                    [(''Train LM Loss'', fst r), (''Train LM PPL'', exp (fst r))])"
proof -
  let ?lg = "\<lambda>i. grad_fn params (microbatch batch i)"
  have sizes: "\<forall>x \<in> set (tree_leaves batch). axis1_size x = N" using assms(2) by simp
  have lg: "loss_and_grad grad_fn params batch i = Inr (fst (?lg i), snd (?lg i))"
    if "i < N" for i
    using get_minibatch_microbatch [OF assms(1) sizes that] by (simp add: loss_and_grad_def)
  have plg: "pjit_loss_and_grad conforms dp_spec grad_fn params batch i = loss_and_grad grad_fn params batch i"
    if "i < N" for i
    using get_minibatch_microbatch [OF assms(1) sizes that] assms(4) that
    by (simp add: loss_and_grad_def pjit_loss_and_grad_def with_sharding_constraint_def)
  have sh: "tree_shape (snd (?lg i)) = tree_shape params" if "i < N" for i
    using assms(3) that by simp
  from accumulate_mean [of N "loss_and_grad grad_fn params batch" "\<lambda>i. fst (?lg i)"
      "\<lambda>i. snd (?lg i)" params, OF lg sh]
  obtain G where
    acc: "accumulate (loss_and_grad grad_fn params batch) params N
            = Inr ((\<Sum>i<N. fst (?lg i)) / real N, G)"
    and shG: "tree_shape G = tree_shape params"
    and val: "\<forall>j<length (tree_leaves params). \<forall>k<length (tree_leaves params ! j).
            tree_leaves G ! j ! k = (\<Sum>i<N. tree_leaves (snd (?lg i)) ! j ! k) / real N"
    by blast
  have plg': "pjit_loss_and_grad conforms dp_spec grad_fn params batch i
                = Inr (fst (?lg i), snd (?lg i))" if "i < N" for i
    using plg [OF that] lg [OF that] by simp
  from accumulate_mean [of N "pjit_loss_and_grad conforms dp_spec grad_fn params batch"
      "\<lambda>i. fst (?lg i)" "\<lambda>i. snd (?lg i)" params, OF plg' sh]
  obtain G' where
    pacc: "accumulate (pjit_loss_and_grad conforms dp_spec grad_fn params batch) params N
            = Inr ((\<Sum>i<N. fst (?lg i)) / real N, G')"
    by blast
  have same: "accumulate (pjit_loss_and_grad conforms dp_spec grad_fn params batch) params N
      = accumulate (loss_and_grad grad_fn params batch) params N"
    by (rule accumulate_cong) (rule plg)
  let ?r = "((\<Sum>i<N. fst (?lg i)) / real N, G)"
  have "is_mean_of N ?lg params ?r"
    using shG val by (simp add: is_mean_of_def)
  moreover have "train_step grad_fn pmean_loss pmean_grads params batch N =
               Inr (pmean_grads (snd ?r),
                    [(''Train LM Loss'', pmean_loss (fst ?r)),
                     (''Train LM PPL'', exp (pmean_loss (fst ?r)))])"
    by (simp add: train_step_def acc Let_def)
  moreover have "pjit_train_step conforms dp_spec grad_fn state_params apply_gradients state
                 batch N =
               Inr (apply_gradients state (snd ?r),
                    [(''Train LM Loss'', fst ?r), (''Train LM PPL'', exp (fst ?r))])"
    by (simp add: pjit_train_step_def assms(5) same acc Let_def)
  ultimately show ?thesis using acc by blast
qed

theorem C2_accumulator_mean_witness:
  "train_step token_sum_grad_fn (\<lambda>l. l) (\<lambda>g. g)
     (Node [(''w'', Leaf [1, 2])]) (Leaf (BatchTensor 2 [[1, 2], [3, 4]])) 2
   = Inr (Node [(''w'', Leaf [5, 5])], [(''Train LM Loss'', 5), (''Train LM PPL'', exp 5)])"
proof -
  let ?batch = "Leaf (BatchTensor 2 [[1, 2], [3, 4 :: nat]])"
  let ?params = "Node [(''w'', Leaf [1, 2 :: real])]"
  have "\<exists>r. accumulate (loss_and_grad token_sum_grad_fn ?params ?batch) ?params 2 = Inr r
           \<and> is_mean_of 2 (\<lambda>i. token_sum_grad_fn ?params (microbatch ?batch i)) ?params r
           \<and> train_step token_sum_grad_fn (\<lambda>l. l) (\<lambda>g. g) ?params ?batch 2 =
               Inr (snd r, [(''Train LM Loss'', fst r), (''Train LM PPL'', exp (fst r))])
           \<and> pjit_train_step (\<lambda>m (p :: unit). True) () token_sum_grad_fn (\<lambda>s :: unit. ?params)
                 (\<lambda>s g. s) () ?batch 2 =
               Inr ((), [(''Train LM Loss'', fst r), (''Train LM PPL'', exp (fst r))])"
    by (rule C2_accumulator_mean [where N = 2 and batch = ?batch and params = ?params
          and grad_fn = token_sum_grad_fn and conforms = "\<lambda>m p. True" and dp_spec = "()"
          and state_params = "\<lambda>s. ?params" and state = "()" and pmean_loss = "\<lambda>l. l"
          and pmean_grads = "\<lambda>g. g" and apply_gradients = "\<lambda>s g. s"])
      (simp_all add: wf_batch_tensor_def token_sum_grad_fn_def tree_shape_def tree_map_def
         Let_def)
  then obtain r where
    "accumulate (loss_and_grad token_sum_grad_fn ?params ?batch) ?params 2 = Inr r"
    and "train_step token_sum_grad_fn (\<lambda>l. l) (\<lambda>g. g) ?params ?batch 2 =
               Inr (snd r, [(''Train LM Loss'', fst r), (''Train LM PPL'', exp (fst r))])"
    by blast
  moreover have "accumulate (loss_and_grad token_sum_grad_fn ?params ?batch) ?params 2
      = Inr (5, Node [(''w'', Leaf [5, 5])])"
    by (simp add: accumulate_def fori_loop_def upt_rec cumul_minibatch_step_def
        loss_and_grad_def get_minibatch_def dynamic_index_in_dim_def clamp_index_def
        token_sum_grad_fn_def tree_map_def zeros_like_def jnp_add_def Let_def)
  ultimately show ?thesis by simp
qed

subsection \<open>C3: stopping at the end-of-sequence token\<close>

text \<open>
  C3: for every sampling method, when the token selected at the loop index \<open>s\<close> is the
  end-of-sequence token, \<open>generate_tokens\<close> returns at once the triple of the
  sequence with the \<open>s\<close> tokens generated before (the end-of-sequence token is not
  appended), the step count \<open>s\<close> and the trace of log-probabilities.

  The branch \<open>greedy\<close> does otherwise (lines 238 to 242): it appends the selected token
  before the test and returns a pair. With the stub model, greedy decoding selects token
  \<open>1\<close> at index \<open>0\<close> and the end-of-sequence token \<open>0\<close> at index \<open>1\<close>: the code
  returns the pair of \<open>[5, 6, 1, 0]\<close> and \<open>1\<close>, where the claim has the triple of
  \<open>[5, 6, 1]\<close>, \<open>1\<close> and a trace; \<open>generate_text_from_prompt\<close>, which unpacks three
  values, raises.
\<close>

theorem C3_greedy_appends_eos_and_returns_a_pair:
  "generate_tokens stub_generator (\<lambda>s. s) stub_model (\<lambda>_ _. 0) ''Hello'' 5 1 None None None
       1 (Some ''greedy'')
     = (2, Inr (Pair [5, 6, 1, 0] 1))
   \<and> generate_text_from_prompt stub_generator (\<lambda>s. s) (\<lambda>s. s) stub_model (\<lambda>_ _. 0) ''Hello''
       5 1 None None None 1 (Some ''greedy'')
     = (2, Inl ValueError)"
  by (simp add: generate_text_from_prompt_def generate_tokens_def upt_rec gen_step_def
        stub_generator_def stub_model_def filter_logits_def softmax_def exp_logit_def
        argmax_def torch_sort_def)

text \<open>
  The other branch does what the claim says: with the same model and a draw that selects
  token \<open>1\<close> and then the end-of-sequence token, the result is the triple of
  \<open>[5, 6, 1]\<close>, \<open>1\<close> and the two log-probabilities.
\<close>

lemma sampling_stops_before_eos_example:
  "generate_tokens stub_generator (\<lambda>s. s) stub_model (\<lambda>step _. if step = 0 then 1 else 0)
       ''Hello'' 5 1 None None None 1 None
     = (2, Inr (Triple [5, 6, 1] 1 [ln (3 / 4), ln (3 / 4)]))"
  by (simp add: generate_tokens_def upt_rec gen_step_def stub_generator_def stub_model_def
        filter_logits_def softmax_def exp_logit_def)

subsection \<open>C4: the history of generated tokens and the repetition penalty\<close>

text \<open>
  C4: at every decoding step and for every sampling method, every token selected before
  (other than the end-of-sequence token) is in the history of generated tokens exactly
  once, and before filtering the logit of every token of the history is divided by the
  repetition penalty when it is non-negative and multiplied by it when it is negative.

  The penalty loop runs for every method, but the history is extended only in the branch
  of the sampling methods (lines 252 and 253 stand inside the \<open>else\<close> of line 243). In
  greedy decoding the history stays empty: after the step at index \<open>0\<close> has selected
  token \<open>1\<close>, which is in \<open>x\<close>, \<open>generated_tokens\<close> is still \<open>[]\<close>, and no logit
  is ever penalised.
\<close>

theorem C4_greedy_keeps_no_history:
  "gen_step stub_generator stub_model (\<lambda>_ _. 0) 1 None None None 2 (Some ''greedy'') 0
     \<lparr>st_x = [5, 6], st_x_cond = [5, 6], st_layer_past = None, st_generated_tokens = [],
      st_logprobs = [], st_calls = 0\<rparr>
   = Continue
       \<lparr>st_x = [5, 6, 1], st_x_cond = [1], st_layer_past = Some 1, st_generated_tokens = [],
        st_logprobs = [], st_calls = 1\<rparr>"
  by (simp add: gen_step_def stub_generator_def stub_model_def filter_logits_def softmax_def
        exp_logit_def argmax_def torch_sort_def)

subsection \<open>C5: validation of the sampling configuration\<close>




subsection \<open>C6: top-p filtering\<close>

text \<open>
  C6, as stated: for a threshold \<open>top_p > 0\<close>, \<open>top_p_logits\<close> sorts the tokens by
  descending logit and keeps exactly the prefix of that order through the first position
  whose cumulative probability meets or exceeds \<open>top_p\<close>, at least one token, and
  masks the others; with \<open>top_p = 1\<close> it keeps every token.

  The mask of the code is \<open>cumulative_probs > top_p\<close>: a position whose cumulative
  probability equals the threshold does not end the prefix. With two equal logits and
  \<open>top_p = 1/2\<close> the cumulative probabilities are \<open>1/2\<close> and \<open>1\<close>; the first
  position meets the threshold, so the claim keeps one token, and the code keeps both.
\<close>

theorem C6_threshold_met_is_not_the_end:
  "top_p_logits [0, 0] (1 / 2) NegInf = Inr [Fin 0, Fin 0]
   \<and> cumsum (softmax (map Fin (fst (torch_sort True [0, 0])))) = [1 / 2, 1]
   \<and> nucleus_size_claimed [0, 0] (1 / 2) = 1"
  by (simp add: top_p_logits_def torch_sort_def softmax_def exp_logit_def cumsum_def
        index_fill_def upt_rec nucleus_size_claimed_def)

text \<open>
  C6, amended: for every non-empty logits vector and threshold \<open>top_p > 0\<close>,
  \<open>top_p_logits\<close> sorts the tokens by descending logit and keeps exactly the prefix of
  that order through the first position whose cumulative softmax probability strictly
  exceeds \<open>top_p\<close> (every token when no position does), which is at least the token
  of highest probability, and sets all other tokens to the filter value; every token is
  kept exactly when no cumulative probability before the last position exceeds
  \<open>top_p\<close>.

  The code has no case of its own for \<open>top_p = 1\<close>: all tokens are kept there as far
  as the computed cumulative probabilities before the last position stay at or below
  \<open>1\<close>, which the theorem takes as a condition and does not derive from
  \<open>top_p \<ge> 1\<close>.
\<close>

theorem C6_top_p_keeps_through_first_exceeding:
  assumes "0 < top_p" and "logits \<noteq> []"
  shows "top_p_logits logits top_p filter_value =
           Inr (map (\<lambda>t. if t \<in> set (take (nucleus_size logits top_p)
                                          (snd (torch_sort True logits)))
                          then Fin (logits ! t) else filter_value) [0..<length logits])
       \<and> sorted (rev (fst (torch_sort True logits)))
       \<and> 1 \<le> nucleus_size logits top_p
       \<and> ((nucleus_size logits top_p = length logits)
            = (\<forall>c \<in> set (butlast (cumsum (softmax (map Fin (fst (torch_sort True logits)))))).
                 c \<le> top_p))"
  using top_p_characterisation [OF assms] sorted_torch_sort_descending [of logits]
    nucleus_size_pos [OF assms(2)] nucleus_size_all [OF assms(2)]
  by blast

theorem C6_top_p_keeps_through_first_exceeding_witness:
  "top_p_logits [0, ln 3] (1 / 2) NegInf = Inr [NegInf, Fin (ln 3)]
   \<and> nucleus_size [0, ln 3] (1 / 2) = 1
   \<and> cumsum (softmax (map Fin (fst (torch_sort True [0, ln 3])))) = [3 / 4, 1]
   \<and> top_p_logits [0, ln 3] (4 / 5) NegInf = Inr [Fin 0, Fin (ln 3)]
   \<and> nucleus_size [0, ln 3] (4 / 5) = 2"
proof -
  have h1: "(0::real) < 1 / 2" and h1': "(0::real) < 4 / 5"
    and h2: "[0, ln 3] \<noteq> ([] :: real list)"
    by simp_all
  from C6_top_p_keeps_through_first_exceeding [OF h1 h2, of NegInf]
    C6_top_p_keeps_through_first_exceeding [OF h1' h2, of NegInf]
  show ?thesis
    by (simp add: nucleus_size_def torch_sort_def softmax_def exp_logit_def cumsum_def
          upt_rec)
qed


subsection \<open>C7: typical sampling\<close>

text \<open>
  C7: for every logits vector, every mass and every \<open>min_tokens_to_keep \<ge> 1\<close>,
  \<open>typical_sampling_logits\<close> leaves at least \<open>min_tokens_to_keep\<close> tokens
  unfiltered, and the index computed as \<open>last_ind\<close> stays in bounds.

  \<open>last_ind\<close> is the number of cumulative probabilities below the mass (line 99). The
  code clamps it at zero from below (line 100), where a count never is, and not from
  above: when every cumulative probability lies below the mass, \<open>last_ind\<close> is the size
  of the vocabulary, and \<open>gather\<close> (line 101) raises. With two equal logits the
  cumulative probabilities are \<open>1/2\<close> and \<open>1\<close>; for a mass of \<open>3/2\<close>
  \<open>last_ind\<close> is \<open>2\<close>, which is no index of a vocabulary of two, and the function
  raises where the claim has it return logits with a token unfiltered.
  \<open>generate_tokens\<close> passes its parameter \<open>tau\<close> on as the mass, unchecked: the
  sampling method \<open>typical\<close> with \<open>tau = 3/2\<close> raises in the first iteration.
\<close>

theorem C7_last_ind_is_not_clamped_above:
  "typical_cumulative_probs [0, 0] = [1 / 2, 1]
   \<and> typical_last_ind [0, 0] (3 / 2) = 2
   \<and> typical_sampling_logits [0, 0] (3 / 2) 1 NegInf = Inl RuntimeError
   \<and> generate_tokens stub_generator (\<lambda>s. s) stub_model (\<lambda>_ _. 0) ''Hello'' 5 1 None None
        (Some (3 / 2)) 1 (Some ''typical'')
      = (1, Inl RuntimeError)"
proof -
  have cum: "typical_cumulative_probs [0, 0] = [1 / 2, 1]"
    by (simp add: typical_cumulative_probs_def typical_sorted_def torch_sort_def softmax_def
          exp_logit_def cumsum_def upt_rec log_softmax_def)
  have li: "typical_last_ind [0, 0] (3 / 2) = 2"
    by (simp add: typical_last_ind_def cum)
  have raises: "typical_sampling_logits [0, 0] (3 / 2) 1 NegInf = Inl RuntimeError"
    by (simp add: typical_sampling_logits_def typical_indices_to_remove_def typical_sorted_def
          li torch_sort_def upt_rec log_softmax_def)
  have "\<forall>c \<in> set (typical_cumulative_probs [0, ln 3]). c < 3 / 2"
    by (simp add: typical_cumulative_probs_stub_logits)
  then have "typical_sampling_logits [0, ln 3] (3 / 2) 1 NegInf = Inl RuntimeError"
    by (rule typical_raises_on_overflow(2))
  then have "generate_tokens stub_generator (\<lambda>s. s) stub_model (\<lambda>_ _. 0) ''Hello'' 5 1 None None
        (Some (3 / 2)) 1 (Some ''typical'')
      = (1, Inl RuntimeError)"
    by (simp add: generate_tokens_def upt_rec gen_step_def stub_generator_def stub_model_def
          filter_logits_def)
  with cum li raises show ?thesis by blast
qed


subsection \<open>C8: the minibatch extractor\<close>

text \<open>
  C8, as stated: \<open>get_minibatch\<close> selects the index along the accumulation axis at
  every leaf, preserves the other axes, has no side effects, and fails when the index lies
  outside \<open>[0, accumulation_steps)\<close>.

  \<open>jax.lax.dynamic_index_in_dim\<close> does not fail on such an index: it clamps it. With
  two accumulation steps the index \<open>5\<close> returns the entries of index \<open>1\<close>.
\<close>

theorem C8_out_of_range_index_is_clamped:
  "get_minibatch (Leaf (BatchTensor 2 [[10, 20 :: nat], [30, 40]])) 5 = Inr (Leaf [20, 40])"
  by (simp add: get_minibatch_def dynamic_index_in_dim_def clamp_index_def)

text \<open>
  C8, amended: for every batch tree whose leaves have the same non-empty accumulation
  axis and for every integer index, \<open>get_minibatch\<close> returns, without failing, the tree
  that holds at every leaf the entries of one index along the accumulation axis, all
  other axes preserved: the given index when it lies in \<open>[0, accumulation_steps)\<close>, and
  otherwise the index clamped into that range (a negative index is first offset by the
  length of the axis). It is a function of its arguments only: it has no side effects.
\<close>

theorem C8_get_minibatch_clamps:
  assumes "\<forall>x \<in> set (tree_leaves batch). wf_batch_tensor x \<and> axis1_size x = N" and "0 < N"
  shows "get_minibatch batch idx = Inr (microbatch batch (clamp_index N idx))
       \<and> clamp_index N idx < N
       \<and> (0 \<le> idx \<and> idx < int N \<longrightarrow> clamp_index N idx = nat idx)"
proof -
  have pos: "\<forall>x \<in> set (tree_leaves batch). 0 < axis1_size x" using assms by simp
  have "tree_map (\<lambda>x. map (\<lambda>row. row ! clamp_index (axis1_size x) idx) (rows x)) batch
        = microbatch batch (clamp_index N idx)"
    unfolding tree_map_def microbatch_def
    by (rule map_pytree_cong_leaves(1)) (use assms in simp)
  with get_minibatch_total [OF pos, of idx]
  have "get_minibatch batch idx = Inr (microbatch batch (clamp_index N idx))" by simp
  moreover have "clamp_index N idx < N" using assms(2) by (rule clamp_index_bound)
  moreover have "0 \<le> idx \<and> idx < int N \<longrightarrow> clamp_index N idx = nat idx"
    by (simp add: clamp_index_in_range)
  ultimately show ?thesis by blast
qed

theorem C8_get_minibatch_clamps_witness:
  "get_minibatch (Node [(''tokens'', Leaf (BatchTensor 2 [[10, 20 :: nat], [30, 40]]))]) 1
     = Inr (Node [(''tokens'', Leaf [20, 40])])
   \<and> get_minibatch (Node [(''tokens'', Leaf (BatchTensor 2 [[10, 20 :: nat], [30, 40]]))]) (- 7)
     = Inr (Node [(''tokens'', Leaf [10, 30])])"
proof -
  let ?batch = "Node [(''tokens'', Leaf (BatchTensor 2 [[10, 20 :: nat], [30, 40]]))]"
  have h: "\<forall>x \<in> set (tree_leaves ?batch). wf_batch_tensor x \<and> axis1_size x = 2"
    by (simp add: wf_batch_tensor_def)
  have p: "0 < (2::nat)" by simp
  from C8_get_minibatch_clamps [OF h p, of 1] C8_get_minibatch_clamps [OF h p, of "- 7"]
  show ?thesis by (simp add: microbatch_def tree_map_def clamp_index_def)
qed

subsection \<open>C9: the key/value cache\<close>

text \<open>
  C9, as stated: for every attention call with \<open>use_cache = True\<close> the returned cache
  is the previous cache concatenated with the current keys and values and truncated from
  the front, so that no cached tensor is ever longer than the block size.

  The code truncates only in the branch \<open>layer_past is not None\<close>. A first call (no
  past) with three positions and block size two returns a cache of length three.
\<close>

theorem C9_first_call_untruncated:
  "causal_attention_present 2 True None [1, 2, 3 :: nat] [4, 5, 6]
     = Some ([1, 2, 3], [4, 5, 6])
   \<and> \<not> cache_within 2 (causal_attention_present 2 True None [1, 2, 3 :: nat] [4, 5, 6])"
  by (simp add: causal_attention_present_def cache_within_def)

text \<open>
  C9, amended: with a positive block size \<open>n\<close>, a call with \<open>use_cache = True\<close> and a
  previous cache returns the previous keys (values) followed by the current ones, cut
  from the front to the last \<open>n\<close> positions, so both have at most \<open>n\<close> positions; a
  call without a previous cache returns the current keys and values as they are.
  Hence, over a decoding run whose first call has at most \<open>n\<close> positions, the cache
  holds at most \<open>n\<close> positions after every step.
\<close>

theorem C9_cache_bounded:
  assumes "0 < n" and "length k0 \<le> n" and "length v0 \<le> n"
  shows "causal_attention_present (int n) True None k v = Some (k, v)
       \<and> causal_attention_present (int n) True (Some (pk, pv)) k v =
           Some (drop (length (pk @ k) - n) (pk @ k), drop (length (pv @ v) - n) (pv @ v))
       \<and> cache_within n (causal_attention_present (int n) True (Some (pk, pv)) k v)
       \<and> cache_within n (decode_cache (int n) ((k0, v0) # kvs) None)"
proof -
  have first: "causal_attention_present (int n) True None k0 v0 = Some (k0, v0)"
    by (simp add: causal_attention_present_def)
  have "cache_within n (Some (k0, v0))"
    using assms(2,3) by (simp add: cache_within_def)
  then have "cache_within n (decode_cache (int n) kvs (Some (k0, v0)))"
    using assms(1) by (intro decode_cache_within) simp_all
  then have run: "cache_within n (decode_cache (int n) ((k0, v0) # kvs) None)"
    by (simp add: first)
  have "causal_attention_present (int n) True None k v = Some (k, v)"
    by (simp add: causal_attention_present_def)
  with run present_with_past [OF assms(1)] present_within [OF assms(1)]
  show ?thesis by blast
qed

theorem C9_cache_bounded_witness:
  "causal_attention_present 2 True (Some ([1, 2 :: nat], [5, 6 :: nat])) [3] [7]
     = Some ([2, 3], [6, 7])
   \<and> decode_cache 2 [([1, 2 :: nat], [5, 6 :: nat]), ([3], [7]), ([4], [8])] None
     = Some ([3, 4], [7, 8])
   \<and> cache_within 2 (decode_cache 2 [([1, 2 :: nat], [5, 6 :: nat]), ([3], [7]), ([4], [8])] None)"
  using C9_cache_bounded [of 2 "[1, 2 :: nat]" "[5, 6 :: nat]" "[3 :: nat]" "[7 :: nat]"
      "[1, 2 :: nat]" "[5, 6 :: nat]" "[([3], [7]), ([4], [8])]"]
  by (simp add: causal_attention_present_def py_slice_from_def)


subsection \<open>C10: a step count of zero\<close>





section \<open>Further properties of the code\<close>

text \<open>
  The result of \<open>update_opt_state\<close> does not depend on the gradients it is given: it
  is the result for the parameters in their place.
\<close>

theorem update_opt_state_ignores_grads:
  "update_opt_state conforms optimizer_update grads optimizer_state params grad_spec
     = update_opt_state conforms optimizer_update params optimizer_state params grad_spec"
  by (simp add: update_opt_state_def)

text \<open>
  The repetition penalty: when the history holds distinct tokens of the vocabulary, the
  logit of every token of the history is multiplied by the penalty if it is negative and
  divided by it otherwise, once, and every other logit is unchanged.
\<close>

theorem penalty_applies_once_to_each_history_token:
  "distinct hist \<Longrightarrow> \<forall>t \<in> set hist. t < length logits \<Longrightarrow>
     \<exists>out. penalty_loop rp hist logits = Inr out \<and> length out = length logits
       \<and> (\<forall>i<length logits.
            out ! i = (if i \<in> set hist
                       then (if logits ! i < 0 then logits ! i * rp else logits ! i / rp)
                       else logits ! i))"
proof (induction hist arbitrary: logits)
  case Nil
  then show ?case by simp
next
  case (Cons t hist)
  let ?l = "logits[t := (if logits ! t < 0 then logits ! t * rp else logits ! t / rp)]"
  have t: "t < length logits" and tn: "t \<notin> set hist" and d: "distinct hist"
    using Cons.prems by simp_all
  have r: "\<forall>u \<in> set hist. u < length ?l" using Cons.prems(2) by simp
  from Cons.IH [OF d r] obtain out where
    out: "penalty_loop rp hist ?l = Inr out" "length out = length ?l"
      "\<forall>i<length ?l. out ! i = (if i \<in> set hist
                       then (if ?l ! i < 0 then ?l ! i * rp else ?l ! i / rp)
                       else ?l ! i)"
    by blast
  have "out ! i = (if i \<in> set (t # hist)
                       then (if logits ! i < 0 then logits ! i * rp else logits ! i / rp)
                       else logits ! i)" if i: "i < length logits" for i
  proof (cases "i = t")
    case True
    then show ?thesis using out(3) i tn by simp
  next
    case False
    then show ?thesis using out(3) i by simp
  qed
  then show ?case using out(1,2) t by simp
qed

theorem penalty_applies_once_to_each_history_token_witness:
  "penalty_loop 2 [2, 0] [4, 1, - 3] = Inr [2, 1, - 6]"
proof -
  have h: "distinct [2, 0 :: nat]" "\<forall>t \<in> set [2, 0 :: nat]. t < length [4, 1, - 3 :: real]"
    by simp_all
  from penalty_applies_once_to_each_history_token [OF h, of 2]
  show ?thesis by simp
qed

text \<open>
  The branch of the sampling methods keeps the history: an iteration that goes on has
  appended a token other than the end-of-sequence token to \<open>x\<close>, the history then holds
  that token besides the tokens it held, and it stays free of duplicates.
\<close>

theorem sampling_branch_extends_history:
  assumes "sampling_method \<noteq> Some ''greedy''"
    and "distinct (st_generated_tokens st)"
    and "gen_step self model multinomial temperature top_k top_p tau repetition_penalty
           sampling_method step st = Continue st'"
  shows "\<exists>tok. st_x st' = st_x st @ [tok] \<and> tok \<noteq> pad_token self
           \<and> set (st_generated_tokens st') = insert tok (set (st_generated_tokens st))
           \<and> distinct (st_generated_tokens st')"
  using assms
  by (auto simp: gen_step_def Let_def split: prod.splits sum.splits if_splits)

theorem sampling_branch_extends_history_witness:
  "gen_step stub_generator stub_model (\<lambda>_ _. 1) 1 None None None 2 None 0
     \<lparr>st_x = [5, 6], st_x_cond = [5, 6], st_layer_past = None, st_generated_tokens = [],
      st_logprobs = [], st_calls = 0\<rparr>
   = Continue
       \<lparr>st_x = [5, 6, 1], st_x_cond = [1], st_layer_past = Some 1, st_generated_tokens = [1],
        st_logprobs = [ln (3 / 4)], st_calls = 1\<rparr>"
proof -
  let ?st = "\<lparr>st_x = [5, 6], st_x_cond = [5, 6], st_layer_past = None :: nat option,
      st_generated_tokens = [], st_logprobs = [], st_calls = 0\<rparr>"
  let ?st' = "\<lparr>st_x = [5, 6, 1], st_x_cond = [1], st_layer_past = Some (1 :: nat),
      st_generated_tokens = [1], st_logprobs = [ln (3 / 4)], st_calls = 1\<rparr>"
  have h1: "(None :: string option) \<noteq> Some ''greedy''" by simp
  have h2: "distinct (st_generated_tokens ?st)" by simp
  have run: "gen_step stub_generator stub_model (\<lambda>_ _. 1) 1 None None None 2 None 0 ?st
               = Continue ?st'"
    by (simp add: gen_step_def stub_generator_def stub_model_def filter_logits_def softmax_def
          exp_logit_def)
  from sampling_branch_extends_history [OF h1 h2 run] run show ?thesis by simp
qed

text \<open>
  In greedy decoding the repetition penalty has no effect: the result is the same for any
  two penalties.
\<close>

theorem greedy_ignores_repetition_penalty:
  "generate_tokens self strip model multinomial prompt steps temperature top_k top_p tau
       repetition_penalty (Some ''greedy'')
   = generate_tokens self strip model multinomial prompt steps temperature top_k top_p tau
       repetition_penalty' (Some ''greedy'')"
  by (simp add: generate_tokens_def Let_def
        generate_loop_greedy_penalty [of _ _ _ _ _ _ _ _ repetition_penalty _ _ repetition_penalty'])

text \<open>
  Every triple that \<open>generate_tokens\<close> returns holds the encoded prompt followed by
  generated tokens, none of which is the end-of-sequence token: as many as the step budget
  when the budget is exhausted, and as many as the returned step count \<open>s\<close> when a
  sampling method selected the end-of-sequence token at the index \<open>s\<close>.
\<close>

theorem triple_holds_prompt_and_generated_tokens:
  assumes "generate_tokens self strip model multinomial prompt steps temperature top_k top_p
             tau repetition_penalty sampling_method = (calls, Inr (Triple output s logprobs))"
  shows "take (length (tokenizer_encode self (strip prompt))) output
           = tokenizer_encode self (strip prompt)
       \<and> pad_token self \<notin> set (drop (length (tokenizer_encode self (strip prompt))) output)
       \<and> ((s = steps
            \<and> length output = length (tokenizer_encode self (strip prompt)) + nat steps)
           \<or> (0 \<le> s \<and> s < steps
               \<and> length output = length (tokenizer_encode self (strip prompt)) + nat s
               \<and> sampling_method \<noteq> Some ''greedy''))"
proof -
  let ?x = "tokenizer_encode self (strip prompt)"
  let ?st = "\<lparr>st_x = ?x,
      st_x_cond = (if int (length ?x) > seq_len self then py_slice_from (- seq_len self) ?x else ?x),
      st_layer_past = None, st_generated_tokens = [], st_logprobs = [], st_calls = 0\<rparr>"
  have run: "generate_loop self model multinomial temperature top_k top_p tau repetition_penalty
           sampling_method steps [0..<nat steps] ?st = (calls, Inr (Triple output s logprobs))"
    using assms by (simp add: generate_tokens_def Let_def)
  from generate_loop_triple [OF run] have
    pre: "take (length ?x) output = ?x"
    and alt: "(s = steps \<and> length output = length ?x + length [0..<nat steps])
            \<or> (\<exists>j<length [0..<nat steps]. s = int ([0..<nat steps] ! j)
                  \<and> length output = length ?x + j \<and> sampling_method \<noteq> Some ''greedy'')"
    by simp_all
  from generate_loop_no_pad [OF run] have
    nopad: "pad_token self \<notin> set (drop (length ?x) output)" by simp
  from alt have "(s = steps \<and> length output = length ?x + nat steps)
           \<or> (0 \<le> s \<and> s < steps \<and> length output = length ?x + nat s
               \<and> sampling_method \<noteq> Some ''greedy'')"
  proof
    assume "s = steps \<and> length output = length ?x + length [0..<nat steps]"
    then show ?thesis by simp
  next
    assume "\<exists>j<length [0..<nat steps]. s = int ([0..<nat steps] ! j)
                  \<and> length output = length ?x + j \<and> sampling_method \<noteq> Some ''greedy''"
    then obtain j where j: "j < nat steps" "s = int ([0..<nat steps] ! j)"
      "length output = length ?x + j" "sampling_method \<noteq> Some ''greedy''" by auto
    then have "s = int j" by simp
    then show ?thesis using j by auto
  qed
  with pre nopad show ?thesis by blast
qed

theorem triple_holds_prompt_and_generated_tokens_witness:
  "generate_tokens stub_generator (\<lambda>s. s) stub_model (\<lambda>step _. if step = 0 then 1 else 0)
       ''Hello'' 5 1 None None None 1 None
     = (2, Inr (Triple [5, 6, 1] 1 [ln (3 / 4), ln (3 / 4)]))"
proof -
  have run: "generate_tokens stub_generator (\<lambda>s. s) stub_model
       (\<lambda>step _. if step = 0 then 1 else 0) ''Hello'' 5 1 None None None 1 None
     = (2, Inr (Triple [5, 6, 1] 1 [ln (3 / 4), ln (3 / 4)]))"
    by (simp add: generate_tokens_def upt_rec gen_step_def stub_generator_def stub_model_def
          filter_logits_def softmax_def exp_logit_def)
  from triple_holds_prompt_and_generated_tokens [OF run] run show ?thesis by simp
qed


text \<open>
  Typical sampling raises exactly when every cumulative probability lies below the mass:
  \<open>last_ind\<close>, the number of cumulative probabilities below the mass, is then the size
  of the vocabulary and \<open>gather\<close> raises; otherwise \<open>last_ind\<close> is an index of the
  vocabulary and the function returns.
\<close>

theorem typical_raises_iff_mass_above_all:
  "0 \<le> typical_last_ind logits mass
   \<and> typical_last_ind logits mass \<le> int (length logits)
   \<and> (typical_last_ind logits mass = int (length logits))
       = (\<forall>c \<in> set (typical_cumulative_probs logits). c < mass)
   \<and> (typical_sampling_logits logits mass min_tokens_to_keep filter_value = Inl RuntimeError)
       = (\<forall>c \<in> set (typical_cumulative_probs logits). c < mass)"
proof (cases "\<forall>c \<in> set (typical_cumulative_probs logits). c < mass")
  case True
  from typical_last_ind_overflow [OF True] typical_raises_on_overflow(2) [OF True] True
  show ?thesis by simp
next
  case False
  then obtain c where c: "c \<in> set (typical_cumulative_probs logits)" "mass \<le> c"
    by fastforce
  have lt: "typical_last_ind logits mass < int (length logits)"
    using c by (rule typical_last_ind_in_range)
  from typical_returns_in_range [OF lt] obtain rm where
    "typical_indices_to_remove logits mass min_tokens_to_keep = Inr rm" by blast
  then have "typical_sampling_logits logits mass min_tokens_to_keep filter_value
               \<noteq> Inl RuntimeError"
    by (simp add: typical_sampling_logits_def)
  with False lt typical_last_ind_nonneg [of logits mass] show ?thesis by simp
qed

theorem typical_raises_iff_mass_above_all_witness:
  "typical_cumulative_probs [ln 3, 0] = [3 / 4, 1]
   \<and> typical_last_ind [ln 3, 0] (3 / 2) = 2
   \<and> typical_sampling_logits [ln 3, 0] (3 / 2) 1 NegInf = Inl RuntimeError
   \<and> typical_last_ind [ln 3, 0] 1 = 1
   \<and> typical_sampling_logits [ln 3, 0] 1 1 NegInf \<noteq> Inl RuntimeError"
  using typical_raises_iff_mass_above_all [of "[ln 3, 0]" "3 / 2" 1 NegInf]
    typical_raises_iff_mass_above_all [of "[ln 3, 0]" 1 1 NegInf]
  by (simp add: typical_cumulative_probs_example typical_last_ind_def)

text \<open>
  When some cumulative probability reaches the mass, and \<open>min_tokens_to_keep\<close> is
  between \<open>1\<close> and the size of the vocabulary, \<open>last_ind\<close> is an index of the
  vocabulary and typical sampling leaves at least \<open>min_tokens_to_keep\<close> tokens
  unfiltered.
\<close>

theorem typical_keeps_min_tokens_in_range:
  assumes "c \<in> set (typical_cumulative_probs logits)" and "mass \<le> c"
    and "1 \<le> min_tokens_to_keep" and "min_tokens_to_keep \<le> int (length logits)"
  shows "0 \<le> typical_last_ind logits mass
       \<and> typical_last_ind logits mass < int (length logits)
       \<and> (\<exists>indices_to_remove.
            typical_indices_to_remove logits mass min_tokens_to_keep = Inr indices_to_remove
            \<and> length indices_to_remove = length logits
            \<and> nat min_tokens_to_keep \<le> length (filter Not indices_to_remove)
            \<and> typical_sampling_logits logits mass min_tokens_to_keep filter_value =
                Inr (map (\<lambda>(r, v). if r then filter_value else Fin v)
                       (zip indices_to_remove logits)))"
proof -
  have lt: "typical_last_ind logits mass < int (length logits)"
    using assms(1,2) by (rule typical_last_ind_in_range)
  from typical_keeps [OF lt assms(3,4)] obtain rm where
    rm: "typical_indices_to_remove logits mass min_tokens_to_keep = Inr rm"
      "length rm = length logits" "nat min_tokens_to_keep \<le> length (filter Not rm)"
    by blast
  have "typical_sampling_logits logits mass min_tokens_to_keep filter_value =
          Inr (map (\<lambda>(r, v). if r then filter_value else Fin v) (zip rm logits))"
    by (simp add: typical_sampling_logits_def rm(1))
  with rm lt typical_last_ind_nonneg [of logits mass] show ?thesis by blast
qed

text \<open>
  With probabilities \<open>3/4\<close> and \<open>1/4\<close> and a mass of \<open>1/2\<close>, \<open>last_ind\<close> is
  \<open>0\<close>: one token to keep leaves the second token filtered, two tokens to keep leave
  both.
\<close>

theorem typical_keeps_min_tokens_in_range_witness:
  "typical_last_ind [ln 3, 0] (1 / 2) = 0
   \<and> typical_sampling_logits [ln 3, 0] (1 / 2) 1 NegInf = Inr [Fin (ln 3), NegInf]
   \<and> typical_sampling_logits [ln 3, 0] (1 / 2) 2 NegInf = Inr [Fin (ln 3), Fin 0]"
proof -
  have h: "3 / 4 \<in> set (typical_cumulative_probs [ln 3, 0])" "(1 / 2 :: real) \<le> 3 / 4"
    by (simp_all add: typical_cumulative_probs_example)
  have k1: "(1 :: int) \<le> 1" "(1 :: int) \<le> int (length [ln 3, 0 :: real])"
    and k2: "(1 :: int) \<le> 2" "(2 :: int) \<le> int (length [ln 3, 0 :: real])"
    by simp_all
  have li: "typical_last_ind [ln 3, 0] (1 / 2) = 0"
    by (simp add: typical_last_ind_def typical_cumulative_probs_example)
  from typical_keeps_min_tokens_in_range [OF h k1, of NegInf]
    typical_keeps_min_tokens_in_range [OF h k2, of NegInf]
  show ?thesis
    by (simp add: typical_sampling_logits_def typical_indices_to_remove_def
          typical_sorted_example li scatter_def)
qed

text \<open>
  A vocabulary smaller than \<open>min_tokens_to_keep\<close> keeps what it has: the slice
  \<open>[..., :min_tokens_to_keep]\<close> of the mask covers the positions there are.
\<close>

lemma typical_vocabulary_smaller_than_min_tokens_to_keep:
  "typical_indices_to_remove [0] (1 / 2) 2 = Inr [False]
   \<and> typical_sampling_logits [0] (1 / 2) 2 NegInf = Inr [Fin 0]"
  by (simp add: typical_sampling_logits_def typical_indices_to_remove_def typical_sorted_def
        typical_last_ind_def typical_cumulative_probs_def torch_sort_def softmax_def
        exp_logit_def cumsum_def upt_rec log_softmax_def scatter_def)

end
